theory Spec2Isabelle
  imports Main "HOL-Library.AList" "HOL-Library.Char_ord" "HOL-Library.List_Lexorder"
begin

section \<open>Size accounting (lib/optimize/SplitChunksPlugin.js, lines 110-163)\<close>

text \<open>
  A threshold map (a \<open>minSize\<close> or a \<open>maxSize\<close>) is a JavaScript object from source-type
  names to numbers, built on \<^verbatim>\<open>Object.create(null)\<close>: it has no prototype, and reading a key
  gives its own property or \<^verbatim>\<open>undefined\<close>. It is modelled as an association list in
  insertion order (the order in which \<^verbatim>\<open>Object.keys\<close> enumerates keys that are not array
  indices); an object never holds a key twice, so the lists of interest have distinct
  keys. Numbers are modelled as integers (module sizes are byte counts); fractions are
  outside the model.
\<close>

type_synonym sizes = "(string \<times> int) list"

text \<open>The values \<^verbatim>\<open>normalizeSizes\<close> distinguishes by \<^verbatim>\<open>typeof\<close>.\<close>

datatype jsValue =
    JSUndefined
  | JSNull
  | JSBoolean bool
  | JSNumber int
  | JSString string
  | JSObject sizes

text \<open>
  \<^verbatim>\<open>Object.keys(obj)\<close>, and the property read \<^verbatim>\<open>obj[key]\<close> on an object without prototype
  (\<open>None\<close> is \<^verbatim>\<open>undefined\<close>).
\<close>

definition objectKeys :: "(string \<times> 'a) list \<Rightarrow> string list" where
  "objectKeys obj = map fst obj"

definition objectGet :: "sizes \<Rightarrow> string \<Rightarrow> int option" where
  "objectGet obj key = map_of obj key"

text \<open>
  \<^verbatim>\<open>Object.assign(target, source)\<close>: every own property of the source is written to the
  target, in the source's order; a key the target already has keeps its place.
\<close>

definition objectAssign :: "sizes \<Rightarrow> sizes \<Rightarrow> sizes" where
  "objectAssign target source = fold (\<lambda>(key, v) obj. AList.update key v obj) source target"

fun normalizeSizes :: "jsValue \<Rightarrow> sizes" where
  "normalizeSizes (JSNumber n) = [(''javascript'', n)]"
| "normalizeSizes (JSObject obj) = objectAssign [] obj"
| "normalizeSizes JSUndefined = []"
| "normalizeSizes JSNull = []"
| "normalizeSizes (JSBoolean b) = []"
| "normalizeSizes (JSString s) = []"

definition mergeSizes :: "jsValue \<Rightarrow> jsValue \<Rightarrow> sizes" where
  "mergeSizes v defaultValue =
     (if v = JSUndefined then normalizeSizes defaultValue
      else let sizes = normalizeSizes v;
               defaultSizes = normalizeSizes defaultValue
           in objectAssign (objectAssign [] defaultSizes) sizes)"

text \<open>
  \<^verbatim>\<open>combineSizes(a, b, combine)\<close>: the keys of \<open>a\<close> first (combined where \<open>b\<close> has the key
  too), then the keys only \<open>b\<close> has.
\<close>

definition combineSizes :: "sizes \<Rightarrow> sizes \<Rightarrow> (int \<Rightarrow> int \<Rightarrow> int) \<Rightarrow> sizes" where
  "combineSizes a b combine =
     (let aKeys = objectKeys a; bKeys = objectKeys b;
          result1 = fold (\<lambda>(key, av) result.
                       (case objectGet b key of
                          Some bv \<Rightarrow> AList.update key (combine av bv) result
                        | None \<Rightarrow> AList.update key av result)) a []
      in fold (\<lambda>(key, bv) result.
                 if key \<notin> set aKeys then AList.update key bv result else result) b result1)"

text \<open>
  The running totals of a candidate are a plain object (\<^verbatim>\<open>sizes: {}\<close>, line 548): own
  properties over \<^verbatim>\<open>Object.prototype\<close>. What lines 558 and 890 write into it is a number,
  \<^verbatim>\<open>NaN\<close>, or a string (\<^verbatim>\<open>+\<close> concatenates as soon as one operand is not a number); what a
  read can find besides is a function or an object inherited from the prototype.
  \<open>NonNumber\<close> stands for such a string, function or object: it is truthy, it is \<^verbatim>\<open>NaN\<close>
  when converted to a number, and \<^verbatim>\<open>+\<close> makes a string of it.
\<close>

datatype sizeValue = Num int | NaN | NonNumber

type_synonym plainSizes = "(string \<times> sizeValue) list"

text \<open>The property names of \<^verbatim>\<open>Object.prototype\<close> (ECMAScript, with its Annex B).\<close>

definition objectPrototypeKeys :: "string list" where
  "objectPrototypeKeys =
     [''constructor'', ''__defineGetter__'', ''__defineSetter__'', ''hasOwnProperty'',
      ''__lookupGetter__'', ''__lookupSetter__'', ''isPrototypeOf'', ''propertyIsEnumerable'',
      ''toString'', ''valueOf'', ''__proto__'', ''toLocaleString'']"

text \<open>
  The read \<^verbatim>\<open>sizes[key]\<close> on a plain object: the own property if there is one, else what
  the prototype has under that name; \<open>None\<close> is \<^verbatim>\<open>undefined\<close>.
\<close>

definition plainGet :: "plainSizes \<Rightarrow> string \<Rightarrow> sizeValue option" where
  "plainGet obj key =
     (case map_of obj key of
        Some v \<Rightarrow> Some v
      | None \<Rightarrow> if key \<in> set objectPrototypeKeys then Some NonNumber else None)"

text \<open>
  The write \<^verbatim>\<open>sizes[key] = v\<close> on a plain object. Under the key \<^verbatim>\<open>__proto__\<close> the assignment
  reaches the setter of \<^verbatim>\<open>Object.prototype\<close>, which ignores a value that is neither an
  object nor \<^verbatim>\<open>null\<close>: nothing is written.
\<close>

definition plainSet :: "string \<Rightarrow> sizeValue \<Rightarrow> plainSizes \<Rightarrow> plainSizes" where
  "plainSet key v obj = (if key = ''__proto__'' then obj else AList.update key v obj)"

text \<open>
  The operators the pass applies to such values: \<^verbatim>\<open>x || 0\<close> on a read, \<^verbatim>\<open>a + b\<close>, \<^verbatim>\<open>x - n\<close>
  on a read and \<^verbatim>\<open>a - b\<close>, \<^verbatim>\<open>a * n\<close>, and \<^verbatim>\<open>a < n\<close>, with \<open>n\<close> a number.
\<close>

fun orZero :: "sizeValue option \<Rightarrow> sizeValue" where
  "orZero None = Num 0"
| "orZero (Some (Num n)) = Num n"
| "orZero (Some NaN) = Num 0"
| "orZero (Some NonNumber) = NonNumber"

fun valueAdd :: "sizeValue \<Rightarrow> sizeValue \<Rightarrow> sizeValue" where
  "valueAdd (Num a) (Num b) = Num (a + b)"
| "valueAdd NonNumber b = NonNumber"
| "valueAdd a NonNumber = NonNumber"
| "valueAdd NaN b = NaN"
| "valueAdd a NaN = NaN"

fun minusNumber :: "sizeValue option \<Rightarrow> int \<Rightarrow> sizeValue" where
  "minusNumber (Some (Num a)) n = Num (a - n)"
| "minusNumber x n = NaN"

fun valueMinus :: "sizeValue \<Rightarrow> sizeValue \<Rightarrow> sizeValue" where
  "valueMinus (Num a) (Num b) = Num (a - b)"
| "valueMinus a b = NaN"

fun valueTimes :: "sizeValue \<Rightarrow> int \<Rightarrow> sizeValue" where
  "valueTimes (Num a) n = Num (a * n)"
| "valueTimes a n = NaN"

fun valueLess :: "sizeValue \<Rightarrow> int \<Rightarrow> bool" where
  "valueLess (Num a) n = (a < n)"
| "valueLess a n = False"

text \<open>
  \<^verbatim>\<open>checkMinSize(sizes, minSize)\<close>: the loop over \<^verbatim>\<open>Object.keys(minSize)\<close> with its two
  early returns; \<open>minSizeValue\<close> is \<^verbatim>\<open>minSize[key]\<close> of the key being visited, and \<open>sizes\<close>
  is the plain object of a candidate.
\<close>

fun checkMinSize :: "plainSizes \<Rightarrow> sizes \<Rightarrow> bool" where
  "checkMinSize sizes [] = True"
| "checkMinSize sizes ((key, minSizeValue) # minSize) =
     (case plainGet sizes key of
        None \<Rightarrow> False
      | Some sz \<Rightarrow> if valueLess sz minSizeValue then False else checkMinSize sizes minSize)"

text \<open>\<^verbatim>\<open>totalSize(sizes)\<close>: the own properties added up, from \<open>0\<close>.\<close>

definition totalSize :: "plainSizes \<Rightarrow> sizeValue" where
  "totalSize sizes = fold (\<lambda>(key, v) sz. valueAdd sz v) sizes (Num 0)"

section \<open>Modules, chunks and cache groups\<close>

text \<open>
  A chunk and a chunk group are object references; what the pass reads from them and
  writes to them goes through the chunk graph (see \<open>ops\<close> below). A module is its
  identifier together with its source types and the size under each: \<^verbatim>\<open>getSourceTypes()\<close>
  are the keys of \<open>sourceSizes\<close>, \<^verbatim>\<open>size(type)\<close> the value.
\<close>

type_synonym chunk = nat
type_synonym chunkGroup = nat

record module =
  module_identifier :: string
  sourceSizes :: sizes

text \<open>A number that may be \<^verbatim>\<open>Infinity\<close> (the request ceilings of an enforced group).\<close>

datatype jsNumber = Finite int | Infinity

fun isFinite :: "jsNumber \<Rightarrow> bool" where
  "isFinite (Finite n) = True"
| "isFinite Infinity = False"

fun mathMin :: "jsNumber \<Rightarrow> jsNumber \<Rightarrow> jsNumber" where
  "mathMin (Finite a) (Finite b) = Finite (min a b)"
| "mathMin (Finite a) Infinity = Finite a"
| "mathMin Infinity b = b"

fun numberLess :: "int \<Rightarrow> jsNumber \<Rightarrow> bool" where
  "numberLess a (Finite b) = (a < b)"
| "numberLess a Infinity = True"

text \<open>A string is truthy when it is neither \<^verbatim>\<open>undefined\<close> nor empty.\<close>

fun truthy :: "string option \<Rightarrow> bool" where
  "truthy None = False"
| "truthy (Some s) = (s \<noteq> [])"

type_synonym getNameFunction = "module \<Rightarrow> chunk list \<Rightarrow> string \<Rightarrow> string option"

text \<open>
  What \<^verbatim>\<open>getCacheGroups\<close> returns for a module (lines 274-293, or a user function): every
  property may be \<^verbatim>\<open>undefined\<close>.
\<close>

record 'g cacheGroupSource =
  source_key :: string
  source_priority :: "int option"
  source_chunksFilter :: "('g \<Rightarrow> chunk \<Rightarrow> bool) option"
  source_enforce :: "bool option"
  source_minSize :: jsValue
  source_maxSize :: jsValue
  source_minChunks :: "int option"
  source_maxAsyncRequests :: "jsNumber option"
  source_maxInitialRequests :: "jsNumber option"
  source_getName :: "getNameFunction option"
  source_filename :: "string option"
  source_automaticNameDelimiter :: "string option"
  source_idHint :: "string option"
  source_reuseExistingChunk :: "bool option"

text \<open>\<^verbatim>\<open>this.options\<close>, as \<^verbatim>\<open>normalizeOptions\<close> builds it (lines 171-191).\<close>

record fallbackCacheGroup =
  fallback_minSize :: sizes
  fallback_maxSize :: sizes
  fallback_automaticNameDelimiter :: string

record 'g options =
  options_chunksFilter :: "'g \<Rightarrow> chunk \<Rightarrow> bool"
  options_minSize :: sizes
  options_maxSize :: sizes
  options_minChunks :: int
  options_maxAsyncRequests :: jsNumber
  options_maxInitialRequests :: jsNumber
  options_hidePathInfo :: bool
  options_filename :: "string option"
  options_automaticNameDelimiter :: "string option"
  options_fallbackCacheGroup :: fallbackCacheGroup

record 'g cacheGroup =
  key :: string
  priority :: int
  chunksFilter :: "'g \<Rightarrow> chunk \<Rightarrow> bool"
  minSize :: sizes
  minSizeForMaxSize :: sizes
  maxSize :: sizes
  minChunks :: int
  maxAsyncRequests :: jsNumber
  maxInitialRequests :: jsNumber
  getName :: "getNameFunction option"
  filename :: "string option"
  automaticNameDelimiter :: "string option"
  idHint :: "string option"
  reuseExistingChunk :: "bool option"

text \<open>
  The object literal of lines 593-649. \<^verbatim>\<open>cacheGroupSource.enforce ? a : b\<close> takes \<open>a\<close> when
  \<open>enforce\<close> is \<^verbatim>\<open>true\<close>; \<^verbatim>\<open>x || d\<close> takes \<open>d\<close> when \<open>x\<close> is \<^verbatim>\<open>undefined\<close> (or \<open>0\<close>, for
  the priority). \<^verbatim>\<open>this.options\<close> has no \<^verbatim>\<open>getName\<close> property, so the default of \<open>getName\<close>
  is \<^verbatim>\<open>undefined\<close>.
\<close>

definition createCacheGroup :: "'g options \<Rightarrow> 'g cacheGroupSource \<Rightarrow> 'g cacheGroup" where
  "createCacheGroup options cacheGroupSource =
     (let enforce = (source_enforce cacheGroupSource = Some True) in
      \<lparr> key = source_key cacheGroupSource,
        priority = (case source_priority cacheGroupSource of Some p \<Rightarrow> p | None \<Rightarrow> 0),
        chunksFilter =
          (case source_chunksFilter cacheGroupSource of
             Some f \<Rightarrow> f | None \<Rightarrow> options_chunksFilter options),
        minSize =
          mergeSizes (source_minSize cacheGroupSource)
            (if enforce then JSObject [] else JSObject (options_minSize options)),
        minSizeForMaxSize =
          mergeSizes (source_minSize cacheGroupSource) (JSObject (options_minSize options)),
        maxSize =
          mergeSizes (source_maxSize cacheGroupSource)
            (if enforce then JSObject [] else JSObject (options_maxSize options)),
        minChunks =
          (case source_minChunks cacheGroupSource of
             Some n \<Rightarrow> n
           | None \<Rightarrow> if enforce then 1 else options_minChunks options),
        maxAsyncRequests =
          (case source_maxAsyncRequests cacheGroupSource of
             Some n \<Rightarrow> n
           | None \<Rightarrow> if enforce then Infinity else options_maxAsyncRequests options),
        maxInitialRequests =
          (case source_maxInitialRequests cacheGroupSource of
             Some n \<Rightarrow> n
           | None \<Rightarrow> if enforce then Infinity else options_maxInitialRequests options),
        getName =
          (case source_getName cacheGroupSource of Some f \<Rightarrow> Some f | None \<Rightarrow> None),
        filename =
          (case source_filename cacheGroupSource of
             Some f \<Rightarrow> Some f | None \<Rightarrow> options_filename options),
        automaticNameDelimiter =
          (case source_automaticNameDelimiter cacheGroupSource of
             Some d \<Rightarrow> Some d | None \<Rightarrow> options_automaticNameDelimiter options),
        idHint =
          (case source_idHint cacheGroupSource of
             Some h \<Rightarrow> Some h | None \<Rightarrow> Some (source_key cacheGroupSource)),
        reuseExistingChunk = source_reuseExistingChunk cacheGroupSource \<rparr>)"

section \<open>The state of one pass\<close>

text \<open>
  \<open>ChunksInfoItem\<close> (lines 30-40). \<^verbatim>\<open>Set\<close>s and the \<^verbatim>\<open>SortableSet\<close> of modules are lists
  without repetition, in insertion order; \<^verbatim>\<open>name\<close> is \<open>None\<close> when \<^verbatim>\<open>getName\<close> returned
  \<^verbatim>\<open>undefined\<close>; \<open>sizes\<close> is the plain object of line 548.
\<close>

record 'g chunksInfoItem =
  modules :: "module list"
  cacheGroup :: "'g cacheGroup"
  name :: "string option"
  validateSize :: bool
  sizes :: plainSizes
  chunks :: "chunk list"
  reuseableChunks :: "chunk list"
  chunksKeys :: "string list"

text \<open>
  The \<^verbatim>\<open>WebpackError\<close> of lines 511-524 (its message is a fixed text around the cache
  group's key and the name) and the \<^verbatim>\<open>MinMaxSizeWarning\<close> of line 938.
\<close>

datatype webpackError = WebpackError string "string option"

datatype minMaxSizeWarning = MinMaxSizeWarning "string list option" int int

record maxSizeSettings =
  settings_minSize :: sizes
  settings_maxSize :: sizes
  settings_automaticNameDelimiter :: "string option"
  settings_keys :: "string list"

text \<open>
  The variables the callback of \<^verbatim>\<open>optimizeChunks\<close> closes over, \<^verbatim>\<open>compilation.errors\<close> and
  \<^verbatim>\<open>compilation.warnings\<close>, and the chunk graph \<open>graph\<close> with everything else of the
  compilation. A \<^verbatim>\<open>Map\<close> is an association list in insertion order.
\<close>

record 'g pass =
  indexMap :: "(chunk \<times> nat) list"
  alreadyValidatedNames :: "string option list"
  chunksInfoMap :: "(string \<times> 'g chunksInfoItem) list"
  maxSizeQueueMap :: "(chunk \<times> maxSizeSettings) list"
  errors :: "webpackError list"
  warnings :: "minMaxSizeWarning list"
  graph :: 'g

text \<open>
  \<open>Chunk\<close>, \<open>ChunkGroup\<close>, \<open>ChunkGraph\<close>, \<open>Module\<close> and \<open>Compilation\<close> are defined outside
  \<^verbatim>\<open>lib/optimize/SplitChunksPlugin.js\<close>, so what the pass calls on them is a parameter of
  the model: a record of operations on a graph state \<open>'g\<close>. Every theorem below holds for
  every such record.
\<close>

record 'g ops =
  chunkName :: "'g \<Rightarrow> chunk \<Rightarrow> string option"
  groupsIterable :: "'g \<Rightarrow> chunk \<Rightarrow> chunkGroup list"
  groupChunks :: "'g \<Rightarrow> chunkGroup \<Rightarrow> chunk list"
  isOnlyInitial :: "'g \<Rightarrow> chunk \<Rightarrow> bool"
  canBeInitial :: "'g \<Rightarrow> chunk \<Rightarrow> bool"
  getNumberOfChunkModules :: "'g \<Rightarrow> chunk \<Rightarrow> nat"
  getNumberOfEntryModules :: "'g \<Rightarrow> chunk \<Rightarrow> nat"
  isModuleInChunk :: "'g \<Rightarrow> module \<Rightarrow> chunk \<Rightarrow> bool"
  getModuleChunksIterable :: "'g \<Rightarrow> module \<Rightarrow> chunk list"
  chunkCondition :: "'g \<Rightarrow> module \<Rightarrow> chunk \<Rightarrow> bool"
  namedChunksHas :: "'g \<Rightarrow> string \<Rightarrow> bool"
  entrypointsGet :: "'g \<Rightarrow> string \<Rightarrow> chunkGroup option"
  addChunk :: "string option \<Rightarrow> 'g \<Rightarrow> chunk \<times> 'g"
  split :: "chunk \<Rightarrow> chunk \<Rightarrow> 'g \<Rightarrow> 'g"
  setChunkReason :: "chunk \<Rightarrow> string \<Rightarrow> 'g \<Rightarrow> 'g"
  entrypointsDelete :: "string \<Rightarrow> 'g \<Rightarrow> 'g"
  entrypointRemove :: "chunkGroup \<Rightarrow> 'g \<Rightarrow> 'g"
  disconnectEntries :: "chunk \<Rightarrow> 'g \<Rightarrow> 'g"
  setFilenameTemplate :: "chunk \<Rightarrow> string \<Rightarrow> 'g \<Rightarrow> 'g"
  addIdNameHint :: "chunk \<Rightarrow> string \<Rightarrow> 'g \<Rightarrow> 'g"
  connectChunkAndModule :: "chunk \<Rightarrow> module \<Rightarrow> 'g \<Rightarrow> 'g"
  disconnectChunkAndModule :: "chunk \<Rightarrow> module \<Rightarrow> 'g \<Rightarrow> 'g"

text \<open>
  How an iteration can stop the pass: a thrown \<^verbatim>\<open>TypeError\<close> (calling \<^verbatim>\<open>undefined\<close>) and the
  thrown \<^verbatim>\<open>Error\<close> of line 819 with its message.
\<close>

datatype failure = TypeError | Error string

section \<open>Chunk-set keys (lines 374-383)\<close>

fun digitChar :: "nat \<Rightarrow> char" where
  "digitChar n = ''0123456789'' ! n"

function showNat :: "nat \<Rightarrow> string" where
  "showNat n = (if n < 10 then [digitChar n] else showNat (n div 10) @ [digitChar (n mod 10)])"
  by pat_completeness auto
termination
  by (relation "measure id") auto

fun join :: "string list \<Rightarrow> string" where
  "join [] = []"
| "join [x] = x"
| "join (x # y # ys) = x @ '','' @ join (y # ys)"

text \<open>
  \<^verbatim>\<open>getKey\<close>: the indices of the chunks, sorted as numbers and joined by commas. A chunk
  without an index gives \<^verbatim>\<open>undefined\<close>, which \<^verbatim>\<open>sort\<close> moves to the end and \<^verbatim>\<open>join\<close> prints
  as the empty string.
\<close>

definition getKey :: "(chunk \<times> nat) list \<Rightarrow> chunk list \<Rightarrow> string" where
  "getKey indices cs =
     (let found = map (map_of indices) cs
      in join (map showNat (sort (List.map_filter id found))
               @ map (\<lambda>_. []) (filter (\<lambda>i. i = None) found)))"

section \<open>The chunk-set indexer (lines 384-432)\<close>

text \<open>Lines 374-378: every chunk gets an index, counted from 1.\<close>

definition buildIndexMap :: "chunk list \<Rightarrow> (chunk \<times> nat) list" where
  "buildIndexMap cs =
     fst (fold (\<lambda>c (m, index). (AList.update c index m, index + 1)) cs ([], 1))"

text \<open>\<^verbatim>\<open>new Set(iterable)\<close>.\<close>

definition newSet :: "'a list \<Rightarrow> 'a list" where
  "newSet xs = fold (\<lambda>x acc. if x \<in> set acc then acc else acc @ [x]) xs []"

text \<open>Lines 385-396: the chunk sets of the modules, registered under their keys.\<close>

definition buildChunkSetsInGraph ::
  "'g ops \<Rightarrow> 'g \<Rightarrow> (chunk \<times> nat) list \<Rightarrow> module list \<Rightarrow> (string \<times> chunk list) list"
where
  "buildChunkSetsInGraph G g indices ms =
     fold (\<lambda>m chunkSetsInGraph.
             let chunksKey = getKey indices (getModuleChunksIterable G g m)
             in if map_of chunkSetsInGraph chunksKey = None then
                  chunkSetsInGraph @ [(chunksKey, newSet (getModuleChunksIterable G g m))]
                else chunkSetsInGraph)
          ms []"

text \<open>Lines 403-411: the registered sets, grouped by their size.\<close>

definition countStep ::
  "string \<times> chunk list \<Rightarrow> (nat \<times> chunk list list) list \<Rightarrow> (nat \<times> chunk list list) list"
where
  "countStep = (\<lambda>(k, chunksSet) chunkSetsByCount.
             let count = length chunksSet
             in case map_of chunkSetsByCount count of
                  None \<Rightarrow> chunkSetsByCount @ [(count, [chunksSet])]
                | Some array \<Rightarrow> AList.update count (array @ [chunksSet]) chunkSetsByCount)"

definition buildChunkSetsByCount ::
  "(string \<times> chunk list) list \<Rightarrow> (nat \<times> chunk list list) list"
where
  "buildChunkSetsByCount chunkSetsInGraph = fold countStep chunkSetsInGraph []"

text \<open>
  Modelled from the spec: \<^verbatim>\<open>isSubset\<close> of \<^verbatim>\<open>util/SetHelpers\<close> is not among the sources.
  Section 4.3 of the spec has \<^verbatim>\<open>getCombinations\<close> keep the registered sets that are "a
  subset of" the owning set: \<open>isSubset bigSet smallSet\<close> holds when every member of
  \<open>smallSet\<close> is a member of \<open>bigSet\<close>.
\<close>

definition isSubset :: "'a list \<Rightarrow> 'a list \<Rightarrow> bool" where
  "isSubset bigSet smallSet \<longleftrightarrow> list_all (\<lambda>item. item \<in> set bigSet) smallSet"

text \<open>
  \<^verbatim>\<open>getCombinations\<close> (lines 416-432). A key that is not registered makes \<^verbatim>\<open>chunksSet\<close>
  \<^verbatim>\<open>undefined\<close>, and reading its \<^verbatim>\<open>size\<close> throws.
\<close>

definition getCombinations ::
  "(string \<times> chunk list) list \<Rightarrow> (nat \<times> chunk list list) list \<Rightarrow> string
     \<Rightarrow> failure + chunk list list"
where
  "getCombinations chunkSetsInGraph chunkSetsByCount k =
     (case map_of chunkSetsInGraph k of
        None \<Rightarrow> Inl TypeError
      | Some chunksSet \<Rightarrow>
          Inr (chunksSet #
               (if length chunksSet > 1 then
                  concat (map (\<lambda>(count, setArray).
                                 if count < length chunksSet
                                 then filter (isSubset chunksSet) setArray
                                 else [])
                              chunkSetsByCount)
                else [])))"

section \<open>The candidate builder's accumulator (lines 492-567)\<close>

text \<open>\<^verbatim>\<open>set.add(x)\<close> on a \<^verbatim>\<open>Set\<close>.\<close>

definition setAdd :: "'a \<Rightarrow> 'a list \<Rightarrow> 'a list" where
  "setAdd x xs = (if x \<in> set xs then xs else xs @ [x])"

text \<open>Lines 557-559: the sizes of a module added to the running totals.\<close>

definition addSizes :: "module \<Rightarrow> plainSizes \<Rightarrow> plainSizes" where
  "addSizes m szs =
     fold (\<lambda>(type, moduleSize) acc.
             plainSet type (valueAdd (orZero (plainGet acc type)) (Num moduleSize)) acc)
          (sourceSizes m) szs"

text \<open>Lines 506-527: the name is checked once; a name an existing chunk has is an error.\<close>

definition validateName :: "'g ops \<Rightarrow> 'g cacheGroup \<Rightarrow> string option \<Rightarrow> 'g pass \<Rightarrow> 'g pass" where
  "validateName G cg nm st =
     (if nm \<notin> set (alreadyValidatedNames st) then
        st\<lparr> alreadyValidatedNames := alreadyValidatedNames st @ [nm],
            errors :=
              (if (case nm of Some s \<Rightarrow> namedChunksHas G (graph st) s | None \<Rightarrow> False)
               then errors st @ [WebpackError (key cg) nm]
               else errors st) \<rparr>
      else st)"

text \<open>Lines 532-534: the key of the candidate in \<^verbatim>\<open>chunksInfoMap\<close>.\<close>

definition infoKey :: "'g cacheGroup \<Rightarrow> string option \<Rightarrow> string \<Rightarrow> string" where
  "infoKey cg nm selectedChunksKey =
     key cg @ (case nm of
                 Some s \<Rightarrow> if s \<noteq> [] then '' name:'' @ s
                           else '' chunks:'' @ selectedChunksKey
               | None \<Rightarrow> '' chunks:'' @ selectedChunksKey)"

text \<open>Lines 540-552: the candidate created when the key is new.\<close>

definition newInfo :: "'g cacheGroup \<Rightarrow> string option \<Rightarrow> 'g chunksInfoItem" where
  "newInfo cg nm =
     \<lparr> modules = [], cacheGroup = cg, name = nm,
       validateSize = (length (objectKeys (minSize cg)) > 0),
       sizes = [], chunks = [], reuseableChunks = [], chunksKeys = [] \<rparr>"

text \<open>Lines 555-566: the module, its sizes and the chunks are added to the candidate.\<close>

definition addToInfo ::
  "module \<Rightarrow> chunk list \<Rightarrow> string \<Rightarrow> 'g chunksInfoItem \<Rightarrow> 'g chunksInfoItem"
where
  "addToInfo m selectedChunks selectedChunksKey info =
     (let info1 = info\<lparr> modules := setAdd m (modules info) \<rparr>;
          info2 =
            (if validateSize info1 then info1\<lparr> sizes := addSizes m (sizes info1) \<rparr>
             else info1)
      in if selectedChunksKey \<notin> set (chunksKeys info2) then
           info2\<lparr> chunksKeys := chunksKeys info2 @ [selectedChunksKey],
                  chunks := fold setAdd selectedChunks (chunks info2) \<rparr>
         else info2)"

definition addModuleToChunksInfoMap ::
  "'g ops \<Rightarrow> 'g cacheGroup \<Rightarrow> chunk list \<Rightarrow> string \<Rightarrow> module \<Rightarrow> 'g pass \<Rightarrow> failure + 'g pass"
where
  "addModuleToChunksInfoMap G cg selectedChunks selectedChunksKey m st =
     (if int (length selectedChunks) < minChunks cg then Inr st
      else case getName cg of
        None \<Rightarrow> Inl TypeError
      | Some getNameFn \<Rightarrow>
          let nm = getNameFn m selectedChunks (key cg);
              st1 = validateName G cg nm st;
              k = infoKey cg nm selectedChunksKey;
              info =
                (case map_of (chunksInfoMap st1) k of
                   Some info \<Rightarrow> info
                 | None \<Rightarrow> newInfo cg nm)
          in Inr (st1\<lparr> chunksInfoMap :=
                        AList.update k (addToInfo m selectedChunks selectedChunksKey info)
                          (chunksInfoMap st1) \<rparr>))"

text \<open>
  Lines 673-682: after the walk through the modules, a candidate that tracks sizes and
  fails \<^verbatim>\<open>checkMinSize\<close> is deleted from the map.
\<close>

definition filterBySize ::
  "(string \<times> 'g chunksInfoItem) list \<Rightarrow> (string \<times> 'g chunksInfoItem) list"
where
  "filterBySize pending =
     filter (\<lambda>(k, info).
               \<not> (validateSize info \<and> \<not> checkMinSize (sizes info) (minSize (cacheGroup info))))
            pending"

section \<open>Choosing the next candidate (lines 73-102 and 687-704)\<close>

text \<open>
  Modelled from the spec: \<^verbatim>\<open>util/comparators\<close> (\<^verbatim>\<open>compareModulesByIdentifier\<close>,
  \<^verbatim>\<open>compareIterables\<close>) and \<^verbatim>\<open>util/SortableSet\<close> are not among the sources. Section 4.5 of
  the spec names the last criterion a "lexicographic comparison of sorted module
  identifiers": two modules compare as their identifiers do, two sequences compare
  element by element, a proper prefix being the smaller, and \<^verbatim>\<open>sort()\<close> orders the set
  by the modules' identifiers.
\<close>

definition compareModulesByIdentifier :: "module \<Rightarrow> module \<Rightarrow> int" where
  "compareModulesByIdentifier a b =
     (if module_identifier a < module_identifier b then - 1
      else if module_identifier b < module_identifier a then 1
      else 0)"

fun compareIterables :: "('a \<Rightarrow> 'a \<Rightarrow> int) \<Rightarrow> 'a list \<Rightarrow> 'a list \<Rightarrow> int" where
  "compareIterables cmp [] [] = 0"
| "compareIterables cmp [] (b # bs) = - 1"
| "compareIterables cmp (a # as) [] = 1"
| "compareIterables cmp (a # as) (b # bs) =
     (let res = cmp a b in if res \<noteq> 0 then res else compareIterables cmp as bs)"

definition compareModuleIterables :: "module list \<Rightarrow> module list \<Rightarrow> int" where
  "compareModuleIterables = compareIterables compareModulesByIdentifier"

definition sortModules :: "module list \<Rightarrow> module list" where
  "sortModules ms = sort_key module_identifier ms"

text \<open>
  \<^verbatim>\<open>compareEntries\<close> (lines 80-102). A difference of the size reductions that is \<^verbatim>\<open>NaN\<close> is
  falsy, like \<open>0\<close>: the comparison goes on to the modules (\<open>byModules\<close>, lines 93-101). The
  source sorts the two module sets in place before the last comparison; that changes the
  order in which the sets are iterated later, not their members, and the model compares
  sorted copies.
\<close>

definition compareEntries :: "'g chunksInfoItem \<Rightarrow> 'g chunksInfoItem \<Rightarrow> int" where
  "compareEntries a b =
     (let diffPriority = priority (cacheGroup a) - priority (cacheGroup b) in
      if diffPriority \<noteq> 0 then diffPriority else
      let diffCount = int (length (chunks a)) - int (length (chunks b)) in
      if diffCount \<noteq> 0 then diffCount else
      let aSizeReduce = valueTimes (totalSize (sizes a)) (int (length (chunks a)) - 1);
          bSizeReduce = valueTimes (totalSize (sizes b)) (int (length (chunks b)) - 1);
          diffSizeReduce = valueMinus aSizeReduce bSizeReduce;
          modulesA = modules a;
          modulesB = modules b;
          diff = int (length modulesA) - int (length modulesB);
          byModules =
            (if diff \<noteq> 0 then diff
             else compareModuleIterables (sortModules modulesB) (sortModules modulesA))
      in case diffSizeReduce of
           Num d \<Rightarrow> if d \<noteq> 0 then d else byModules
         | NaN \<Rightarrow> byModules
         | NonNumber \<Rightarrow> byModules)"

text \<open>
  Lines 692-700: one step of the scan for the best entry; \<open>None\<close> is
  \<^verbatim>\<open>bestEntry === undefined\<close>.
\<close>

definition bestStep ::
  "string \<times> 'g chunksInfoItem \<Rightarrow> (string \<times> 'g chunksInfoItem) option
     \<Rightarrow> (string \<times> 'g chunksInfoItem) option"
where
  "bestStep = (\<lambda>(k, info) best.
             case best of
               None \<Rightarrow> Some (k, info)
             | Some (bestEntryKey, bestEntry) \<Rightarrow>
                 if compareEntries bestEntry info < 0 then Some (k, info) else best)"

text \<open>Lines 689-701.\<close>

definition findBestEntry ::
  "(string \<times> 'g chunksInfoItem) list \<Rightarrow> (string \<times> 'g chunksInfoItem) option"
where
  "findBestEntry pending = fold bestStep pending None"

section \<open>Reusing an existing chunk (lines 711-741)\<close>

text \<open>The three tests that let the loop \<^verbatim>\<open>continue\<close> past a chunk (lines 714-723).\<close>

definition chunkMatches :: "'g ops \<Rightarrow> 'g \<Rightarrow> 'g chunksInfoItem \<Rightarrow> chunk \<Rightarrow> bool" where
  "chunkMatches G g item c \<longleftrightarrow>
     getNumberOfChunkModules G g c = length (modules item)
     \<and> \<not> getNumberOfEntryModules G g c > 0
     \<and> list_all (\<lambda>m. isModuleInChunk G g m c) (modules item)"

text \<open>
  Lines 724-737 for a chunk that passed the tests: \<open>newChunk\<close> before and after.
  Every such iteration also sets \<^verbatim>\<open>isReused = true\<close> and \<^verbatim>\<open>chunkName = undefined\<close>, so after
  the loop \<open>isReused\<close> holds exactly when \<open>newChunk\<close> is set (see \<open>reuseDecision\<close>).
\<close>

definition preferChunk :: "'g ops \<Rightarrow> 'g \<Rightarrow> chunk \<Rightarrow> chunk option \<Rightarrow> chunk" where
  "preferChunk G g c newChunk =
     (case newChunk of
        None \<Rightarrow> c
      | Some n \<Rightarrow>
          (case chunkName G g n of
             None \<Rightarrow> c
           | Some newName \<Rightarrow>
               if newName = [] then c
               else (case chunkName G g c of
                       None \<Rightarrow> n
                     | Some cName \<Rightarrow>
                         if cName \<noteq> [] \<and> length cName < length newName then c
                         else if cName \<noteq> [] \<and> length cName = length newName
                                 \<and> cName < newName then c
                         else n)))"

definition findReusableChunk :: "'g ops \<Rightarrow> 'g \<Rightarrow> 'g chunksInfoItem \<Rightarrow> chunk option" where
  "findReusableChunk G g item =
     fold (\<lambda>c newChunk.
             if chunkMatches G g item c then Some (preferChunk G g c newChunk) else newChunk)
          (chunks item) None"

text \<open>
  Lines 706-741: \<open>(newChunk, chunkName, isReused)\<close> when the reuse decision is over.
\<close>

definition reuseDecision ::
  "'g ops \<Rightarrow> 'g \<Rightarrow> 'g chunksInfoItem \<Rightarrow> chunk option \<times> string option \<times> bool"
where
  "reuseDecision G g item =
     (if reuseExistingChunk (cacheGroup item) = Some True then
        (case findReusableChunk G g item of
           Some c \<Rightarrow> (Some c, None, True)
         | None \<Rightarrow> (None, name item, False))
      else (None, name item, False))"

section \<open>The request budget (lines 52-58 and 744-788)\<close>

definition getRequests :: "'g ops \<Rightarrow> 'g \<Rightarrow> chunk \<Rightarrow> int" where
  "getRequests G g c =
     fold (\<lambda>grp requests. max requests (int (length (groupChunks G g grp))))
          (groupsIterable G g c) 0"

text \<open>Lines 744-749.\<close>

definition usedChunksOf ::
  "'g ops \<Rightarrow> 'g \<Rightarrow> 'g chunksInfoItem \<Rightarrow> string option \<Rightarrow> chunk option \<Rightarrow> chunk list"
where
  "usedChunksOf G g item chunkNm newChunk =
     filter (\<lambda>c. (\<not> truthy chunkNm \<or> chunkName G g c \<noteq> chunkNm) \<and> Some c \<noteq> newChunk)
            (chunks item)"

text \<open>Lines 758-773.\<close>

definition maxRequestsOf :: "'g ops \<Rightarrow> 'g \<Rightarrow> 'g cacheGroup \<Rightarrow> chunk \<Rightarrow> jsNumber" where
  "maxRequestsOf G g cg c =
     (if isOnlyInitial G g c then maxInitialRequests cg
      else if canBeInitial G g c then mathMin (maxInitialRequests cg) (maxAsyncRequests cg)
      else maxAsyncRequests cg)"

definition chunksInLimitOf ::
  "'g ops \<Rightarrow> 'g \<Rightarrow> 'g cacheGroup \<Rightarrow> chunk list \<Rightarrow> chunk option \<Rightarrow> chunk list"
where
  "chunksInLimitOf G g cg usedChunks newChunk =
     filter (\<lambda>c. let maxRequests = maxRequestsOf G g cg c
                 in \<not> isFinite maxRequests \<or> numberLess (getRequests G g c) maxRequests)
            usedChunks
     @ (case newChunk of Some n \<Rightarrow> [n] | None \<Rightarrow> [])"

text \<open>Lines 777-784: the modules of the candidate are handed back to the accumulator.\<close>

fun addModules ::
  "'g ops \<Rightarrow> 'g cacheGroup \<Rightarrow> chunk list \<Rightarrow> string \<Rightarrow> module list \<Rightarrow> 'g pass \<Rightarrow> failure + 'g pass"
where
  "addModules G cg cs ck [] st = Inr st"
| "addModules G cg cs ck (m # ms) st =
     (case addModuleToChunksInfoMap G cg cs ck m st of
        Inl e \<Rightarrow> Inl e
      | Inr st' \<Rightarrow> addModules G cg cs ck ms st')"

section \<open>Materializing the candidate (lines 790-875)\<close>

text \<open>Lines 801-808: the reason noted on the chunk.\<close>

definition chunkReasonOf :: "'g cacheGroup \<Rightarrow> string option \<Rightarrow> bool \<Rightarrow> string" where
  "chunkReasonOf cg chunkNm isReused =
     (if isReused then ''reused as split chunk'' else ''split chunk'')
     @ (if key cg \<noteq> [] then '' (cache group: '' @ key cg @ '')'' else [])
     @ (case chunkNm of
          Some n \<Rightarrow> if n \<noteq> [] then '' (name: '' @ n @ '')'' else []
        | None \<Rightarrow> [])"

text \<open>Lines 809-815: an entry point of the chosen name is removed.\<close>

definition removeEntrypointNamed :: "'g ops \<Rightarrow> string option \<Rightarrow> chunk \<Rightarrow> 'g \<Rightarrow> 'g" where
  "removeEntrypointNamed G chunkNm newChunk g =
     (case chunkNm of
        None \<Rightarrow> g
      | Some n \<Rightarrow>
          if n = [] then g
          else (case entrypointsGet G g n of
                  None \<Rightarrow> g
                | Some entrypoint \<Rightarrow>
                    disconnectEntries G newChunk
                      (entrypointRemove G entrypoint (entrypointsDelete G n g))))"

text \<open>Lines 817-827: the filename check, with the message of the thrown \<^verbatim>\<open>Error\<close>.\<close>

definition filenameErrorMessage :: "string \<Rightarrow> string" where
  "filenameErrorMessage cacheGroupKey =
     ''SplitChunksPlugin: You are trying to set a filename for a chunk which is (also) loaded on demand. ''
     @ ''The runtime can only handle loading of chunks which match the chunkFilename schema. ''
     @ ''Using a custom filename would fail at runtime. ''
     @ ''(cache group: '' @ cacheGroupKey @ '')''"

definition setFilename :: "'g ops \<Rightarrow> 'g cacheGroup \<Rightarrow> chunk \<Rightarrow> 'g \<Rightarrow> failure + 'g" where
  "setFilename G cg newChunk g =
     (case filename cg of
        None \<Rightarrow> Inr g
      | Some f \<Rightarrow>
          if f = [] then Inr g
          else if \<not> isOnlyInitial G g newChunk then Inl (Error (filenameErrorMessage (key cg)))
          else Inr (setFilenameTemplate G newChunk f g))"

text \<open>Lines 828-830.\<close>

definition setIdHint :: "'g ops \<Rightarrow> 'g cacheGroup \<Rightarrow> chunk \<Rightarrow> 'g \<Rightarrow> 'g" where
  "setIdHint G cg newChunk g =
     (case idHint cg of
        None \<Rightarrow> g
      | Some h \<Rightarrow> if h = [] then g else addIdNameHint G newChunk h g)"

text \<open>Lines 831-849: the modules move to the new chunk, or only leave the used chunks.\<close>

definition moveModules ::
  "'g ops \<Rightarrow> bool \<Rightarrow> module list \<Rightarrow> chunk list \<Rightarrow> chunk \<Rightarrow> 'g \<Rightarrow> 'g"
where
  "moveModules G isReused ms usedChunks newChunk g =
     (if \<not> isReused then
        fold (\<lambda>m g1.
                if \<not> chunkCondition G g1 m newChunk then g1
                else fold (\<lambda>c. disconnectChunkAndModule G c m) usedChunks
                       (connectChunkAndModule G newChunk m g1))
             ms g
      else
        fold (\<lambda>m g1. fold (\<lambda>c. disconnectChunkAndModule G c m) usedChunks g1) ms g)"

text \<open>
  Lines 790-816: the target chunk (a new one unless a chunk is reused) and the graph when
  the filename check is reached.
\<close>

definition prepareTarget ::
  "'g ops \<Rightarrow> 'g chunksInfoItem \<Rightarrow> string option \<Rightarrow> chunk option \<Rightarrow> chunk list \<Rightarrow> 'g
     \<Rightarrow> chunk \<times> 'g"
where
  "prepareTarget G item chunkNm reused usedChunks g =
     (let cg = cacheGroup item;
          (newChunk, g1) = (case reused of Some c \<Rightarrow> (c, g) | None \<Rightarrow> addChunk G chunkNm g);
          g2 = fold (\<lambda>c. split G c newChunk) usedChunks g1;
          g3 = setChunkReason G newChunk (chunkReasonOf cg chunkNm (reused \<noteq> None)) g2
      in (newChunk, removeEntrypointNamed G chunkNm newChunk g3))"

text \<open>Lines 790-849 together: the target chunk and the graph, or the thrown error.\<close>

definition materialize ::
  "'g ops \<Rightarrow> 'g chunksInfoItem \<Rightarrow> string option \<Rightarrow> chunk option \<Rightarrow> chunk list \<Rightarrow> 'g
     \<Rightarrow> failure + (chunk \<times> 'g)"
where
  "materialize G item chunkNm reused usedChunks g =
     (let cg = cacheGroup item;
          (newChunk, g4) = prepareTarget G item chunkNm reused usedChunks g
      in case setFilename G cg newChunk g4 of
           Inl e \<Rightarrow> Inl e
         | Inr g5 \<Rightarrow>
             Inr (newChunk,
                  moveModules G (reused \<noteq> None) (modules item) usedChunks newChunk
                    (setIdHint G cg newChunk g5)))"

text \<open>Lines 851-875: the size constraints queued for the target chunk.\<close>

definition queueMaxSize ::
  "'g cacheGroup \<Rightarrow> chunk \<Rightarrow> (chunk \<times> maxSizeSettings) list \<Rightarrow> (chunk \<times> maxSizeSettings) list"
where
  "queueMaxSize cg newChunk queue =
     (if length (objectKeys (maxSize cg)) > 0 then
        (case map_of queue newChunk of
           Some oldMaxSizeSettings \<Rightarrow>
             AList.update newChunk
               \<lparr> settings_minSize =
                   combineSizes (settings_minSize oldMaxSizeSettings) (minSizeForMaxSize cg) max,
                 settings_maxSize =
                   combineSizes (settings_maxSize oldMaxSizeSettings) (maxSize cg) min,
                 settings_automaticNameDelimiter = automaticNameDelimiter cg,
                 settings_keys = settings_keys oldMaxSizeSettings @ [key cg] \<rparr> queue
         | None \<Rightarrow>
             AList.update newChunk
               \<lparr> settings_minSize = minSize cg,
                 settings_maxSize = maxSize cg,
                 settings_automaticNameDelimiter = automaticNameDelimiter cg,
                 settings_keys = [key cg] \<rparr> queue)
      else queue)"

section \<open>Retracting the modules from the other candidates (lines 60-71 and 877-914)\<close>

fun isOverlap :: "'a list \<Rightarrow> 'a list \<Rightarrow> bool" where
  "isOverlap [] b = False"
| "isOverlap (item # a) b = (if item \<in> set b then True else isOverlap a b)"

text \<open>
  Lines 889-891: the sizes of a removed module are subtracted from what is read under
  their types.
\<close>

fun subtractSizes :: "sizes \<Rightarrow> plainSizes \<Rightarrow> plainSizes" where
  "subtractSizes [] szs = szs"
| "subtractSizes ((type, moduleSize) # rest) szs =
     subtractSizes rest (plainSet type (minusNumber (plainGet szs type) moduleSize) szs)"

text \<open>Lines 883-894: the loop over the modules of the consumed candidate.\<close>

fun removeTracked ::
  "module list \<Rightarrow> 'g chunksInfoItem \<Rightarrow> bool \<Rightarrow> 'g chunksInfoItem \<times> bool"
where
  "removeTracked [] info updated = (info, updated)"
| "removeTracked (m # ms) info updated =
     (if m \<in> set (modules info) then
        removeTracked ms
          (info\<lparr> modules := removeAll m (modules info),
                 sizes := subtractSizes (sourceSizes m) (sizes info) \<rparr>) True
      else removeTracked ms info updated)"

text \<open>
  Lines 879-913 for one entry of the map: \<open>None\<close> when the entry is deleted.
\<close>

definition retractEntry :: "'g chunksInfoItem \<Rightarrow> 'g chunksInfoItem \<Rightarrow> 'g chunksInfoItem option"
where
  "retractEntry item info =
     (if isOverlap (chunks info) (chunks item) then
        (if validateSize info then
           (let (info', updated) = removeTracked (modules item) info False
            in if updated then
                 (if length (modules info') = 0 then None
                  else if \<not> checkMinSize (sizes info') (minSize (cacheGroup info')) then None
                  else Some info')
               else Some info')
         else
           (let info' = info\<lparr> modules := fold removeAll (modules item) (modules info) \<rparr>
            in if length (modules info') = 0 then None else Some info'))
      else Some info)"

fun retract ::
  "'g chunksInfoItem \<Rightarrow> (string \<times> 'g chunksInfoItem) list \<Rightarrow> (string \<times> 'g chunksInfoItem) list"
where
  "retract item [] = []"
| "retract item ((k, info) # rest) =
     (case retractEntry item info of
        None \<Rightarrow> retract item rest
      | Some info' \<Rightarrow> (k, info') # retract item rest)"

section \<open>One iteration of the selection loop (lines 687-915)\<close>

text \<open>
  Lines 706-914: what the body does with the chosen candidate \<open>item\<close>, which line 704
  has already deleted from the map. Each \<^verbatim>\<open>continue\<close> returns the state reached so far.
\<close>

definition processEntry :: "'g ops \<Rightarrow> 'g chunksInfoItem \<Rightarrow> 'g pass \<Rightarrow> failure + 'g pass" where
  "processEntry G item st1 =
     (let cg = cacheGroup item;
          g = graph st1;
          (newChunk, chunkNm, isReused) = reuseDecision G g item;
          usedChunks = usedChunksOf G g item chunkNm newChunk;
          chunksInLimit = chunksInLimitOf G g cg usedChunks newChunk
      in if length usedChunks = 0 \<and> \<not> isReused then Inr st1
         else if (isFinite (maxInitialRequests cg) \<or> isFinite (maxAsyncRequests cg))
                 \<and> length chunksInLimit < length usedChunks then
           (if int (length chunksInLimit) \<ge> minChunks cg then
              addModules G cg chunksInLimit (getKey (indexMap st1) chunksInLimit)
                (modules item) st1
            else Inr st1)
         else
           (case materialize G item chunkNm newChunk usedChunks g of
              Inl e \<Rightarrow> Inl e
            | Inr (target, g') \<Rightarrow>
                Inr (st1\<lparr> graph := g',
                          maxSizeQueueMap := queueMaxSize cg target (maxSizeQueueMap st1),
                          chunksInfoMap := retract item (chunksInfoMap st1) \<rparr>)))"

text \<open>
  The body of \<^verbatim>\<open>while (chunksInfoMap.size > 0)\<close> (lines 688-914): the best entry is found,
  deleted from the map and processed. On an empty map the body would read \<^verbatim>\<open>item.name\<close>
  of \<^verbatim>\<open>undefined\<close>; the loop's guard keeps it from running there.
\<close>

definition loopBody :: "'g ops \<Rightarrow> 'g pass \<Rightarrow> failure + 'g pass" where
  "loopBody G st =
     (case findBestEntry (chunksInfoMap st) of
        None \<Rightarrow> Inl TypeError
      | Some (bestEntryKey, item) \<Rightarrow>
          processEntry G item
            (st\<lparr> chunksInfoMap := AList.delete bestEntryKey (chunksInfoMap st) \<rparr>))"

section \<open>The warnings of the max-size pass (lines 917-941)\<close>






section \<open>A small chunk graph\<close>

text \<open>
  Modelled from the spec: the chunk graph itself (\<open>Chunk\<close>, \<open>ChunkGroup\<close>, \<open>ChunkGraph\<close>,
  \<open>Compilation\<close>) is not among the sources. Sections 3 and 6 of the spec describe it as a
  many-to-many relation between modules and chunks, chunks with an optional name, chunk
  groups from which a chunk's request count and its "initial" classification derive,
  and \<^verbatim>\<open>split\<close> as handing a chunk's groups on to a second chunk. This instance of \<open>ops\<close>
  implements that description with association lists; the examples below run on it.
\<close>

record simpleGraph =
  sg_names :: "(chunk \<times> string) list"
  sg_modules :: "(chunk \<times> module list) list"
  sg_entryModules :: "(chunk \<times> module list) list"
  sg_groups :: "(chunkGroup \<times> bool \<times> chunk list) list"
  sg_entrypoints :: "(string \<times> chunkGroup) list"
  sg_nextChunk :: chunk
  sg_reasons :: "(chunk \<times> string) list"
  sg_filenames :: "(chunk \<times> string) list"
  sg_idHints :: "(chunk \<times> string list) list"

definition sgLookup :: "('a \<times> 'b list) list \<Rightarrow> 'a \<Rightarrow> 'b list" where
  "sgLookup al x = (case map_of al x of Some ys \<Rightarrow> ys | None \<Rightarrow> [])"

definition sgGroupsOf :: "simpleGraph \<Rightarrow> chunk \<Rightarrow> (chunkGroup \<times> bool \<times> chunk list) list" where
  "sgGroupsOf g c = filter (\<lambda>(grp, initial, cs). c \<in> set cs) (sg_groups g)"

definition sgAddChunk :: "string option \<Rightarrow> simpleGraph \<Rightarrow> chunk \<times> simpleGraph" where
  "sgAddChunk nm g =
     (case (case nm of Some s \<Rightarrow> find (\<lambda>(c, n). n = s) (sg_names g) | None \<Rightarrow> None) of
        Some (c, n) \<Rightarrow> (c, g)
      | None \<Rightarrow>
          (sg_nextChunk g,
           g\<lparr> sg_nextChunk := sg_nextChunk g + 1,
              sg_names := (case nm of Some s \<Rightarrow> sg_names g @ [(sg_nextChunk g, s)]
                                    | None \<Rightarrow> sg_names g) \<rparr>))"

definition sgSplit :: "chunk \<Rightarrow> chunk \<Rightarrow> simpleGraph \<Rightarrow> simpleGraph" where
  "sgSplit c newChunk g =
     g\<lparr> sg_groups :=
          map (\<lambda>(grp, initial, cs).
                 if c \<in> set cs \<and> newChunk \<notin> set cs then (grp, initial, cs @ [newChunk])
                 else (grp, initial, cs))
              (sg_groups g) \<rparr>"

definition simpleOps :: "simpleGraph ops" where
  "simpleOps =
     \<lparr> chunkName = (\<lambda>g c. map_of (sg_names g) c),
       groupsIterable = (\<lambda>g c. map fst (sgGroupsOf g c)),
       groupChunks = (\<lambda>g grp. case map_of (sg_groups g) grp of
                                 Some (initial, cs) \<Rightarrow> cs | None \<Rightarrow> []),
       isOnlyInitial = (\<lambda>g c. sgGroupsOf g c \<noteq> []
                               \<and> list_all (\<lambda>(grp, initial, cs). initial) (sgGroupsOf g c)),
       canBeInitial = (\<lambda>g c. list_ex (\<lambda>(grp, initial, cs). initial) (sgGroupsOf g c)),
       getNumberOfChunkModules = (\<lambda>g c. length (sgLookup (sg_modules g) c)),
       getNumberOfEntryModules = (\<lambda>g c. length (sgLookup (sg_entryModules g) c)),
       isModuleInChunk = (\<lambda>g m c. m \<in> set (sgLookup (sg_modules g) c)),
       getModuleChunksIterable =
         (\<lambda>g m. map fst (filter (\<lambda>(c, ms). m \<in> set ms) (sg_modules g))),
       chunkCondition = (\<lambda>g m c. True),
       namedChunksHas = (\<lambda>g s. list_ex (\<lambda>(c, n). n = s) (sg_names g)),
       entrypointsGet = (\<lambda>g s. map_of (sg_entrypoints g) s),
       addChunk = sgAddChunk,
       split = sgSplit,
       setChunkReason = (\<lambda>c r g. g\<lparr> sg_reasons := AList.update c r (sg_reasons g) \<rparr>),
       entrypointsDelete =
         (\<lambda>s g. g\<lparr> sg_entrypoints := AList.delete s (sg_entrypoints g) \<rparr>),
       entrypointRemove = (\<lambda>grp g. g\<lparr> sg_groups := AList.delete grp (sg_groups g) \<rparr>),
       disconnectEntries =
         (\<lambda>c g. g\<lparr> sg_entryModules := AList.delete c (sg_entryModules g) \<rparr>),
       setFilenameTemplate =
         (\<lambda>c f g. g\<lparr> sg_filenames := AList.update c f (sg_filenames g) \<rparr>),
       addIdNameHint =
         (\<lambda>c h g. g\<lparr> sg_idHints :=
                       AList.update c (setAdd h (sgLookup (sg_idHints g) c)) (sg_idHints g) \<rparr>),
       connectChunkAndModule =
         (\<lambda>c m g. g\<lparr> sg_modules :=
                       AList.update c (setAdd m (sgLookup (sg_modules g) c)) (sg_modules g) \<rparr>),
       disconnectChunkAndModule =
         (\<lambda>c m g. g\<lparr> sg_modules :=
                       AList.update c (removeAll m (sgLookup (sg_modules g) c)) (sg_modules g) \<rparr>) \<rparr>"

section \<open>Specification predicates and example data\<close>



text \<open>
  The order of section 4.5, step 1, in the spec's words: \<open>a\<close> is preferred to \<open>b\<close> when it
  has the higher priority; else the more spanned chunks; else the larger
  \<open>totalSize \<times> (spannedChunks - 1)\<close>; else the more modules; else when its sorted module
  identifiers come first lexicographically (the inverted tie-break). The total size of
  a candidate is the sum of the sizes it has recorded, one under each source type; the
  sizes of a candidate are as line 36 declares them, \<^verbatim>\<open>Record<string, number>\<close>, when each
  of them is a number (\<open>numericSizes\<close>).
\<close>

fun isNumber :: "sizeValue \<Rightarrow> bool" where
  "isNumber (Num n) = True"
| "isNumber NaN = False"
| "isNumber NonNumber = False"

fun numberOf :: "sizeValue \<Rightarrow> int" where
  "numberOf (Num n) = n"
| "numberOf NaN = 0"
| "numberOf NonNumber = 0"

definition numericSizes :: "'g chunksInfoItem \<Rightarrow> bool" where
  "numericSizes a \<longleftrightarrow> list_all (\<lambda>(t, v). isNumber v) (sizes a)"

definition sizeSum :: "'g chunksInfoItem \<Rightarrow> int" where
  "sizeSum a = (\<Sum>(t, v) \<leftarrow> sizes a. numberOf v)"

definition sizeReduce :: "'g chunksInfoItem \<Rightarrow> int" where
  "sizeReduce a = sizeSum a * (int (length (chunks a)) - 1)"

definition sortedIdentifiers :: "'g chunksInfoItem \<Rightarrow> string list" where
  "sortedIdentifiers a = map module_identifier (sortModules (modules a))"

definition preferred :: "'g chunksInfoItem \<Rightarrow> 'g chunksInfoItem \<Rightarrow> bool" where
  "preferred a b \<longleftrightarrow>
     priority (cacheGroup a) > priority (cacheGroup b)
     \<or> (priority (cacheGroup a) = priority (cacheGroup b)
        \<and> (length (chunks a) > length (chunks b)
           \<or> (length (chunks a) = length (chunks b)
              \<and> (sizeReduce a > sizeReduce b
                 \<or> (sizeReduce a = sizeReduce b
                    \<and> (length (modules a) > length (modules b)
                       \<or> (length (modules a) = length (modules b)
                          \<and> sortedIdentifiers a < sortedIdentifiers b)))))))"

definition exampleOptions :: "simpleGraph options" where
  "exampleOptions =
     \<lparr> options_chunksFilter = (\<lambda>g c. True),
       options_minSize = [(''javascript'', 30000)],
       options_maxSize = [(''javascript'', 100000)],
       options_minChunks = 2,
       options_maxAsyncRequests = Finite 5,
       options_maxInitialRequests = Finite 3,
       options_hidePathInfo = False,
       options_filename = None,
       options_automaticNameDelimiter = Some ''~'',
       options_fallbackCacheGroup =
         \<lparr> fallback_minSize = [(''javascript'', 30000)],
           fallback_maxSize = [(''javascript'', 100000)],
           fallback_automaticNameDelimiter = ''~'' \<rparr> \<rparr>"

definition exampleSource :: "simpleGraph cacheGroupSource" where
  "exampleSource =
     \<lparr> source_key = ''vendors'',
       source_priority = None,
       source_chunksFilter = None,
       source_enforce = Some True,
       source_minSize = JSUndefined,
       source_maxSize = JSObject [(''css'', 500)],
       source_minChunks = None,
       source_maxAsyncRequests = None,
       source_maxInitialRequests = Some (Finite 4),
       source_getName = Some (\<lambda>m cs k. Some ''shared''),
       source_filename = None,
       source_automaticNameDelimiter = None,
       source_idHint = None,
       source_reuseExistingChunk = None \<rparr>"

definition emptyGraph :: simpleGraph where
  "emptyGraph =
     \<lparr> sg_names = [], sg_modules = [], sg_entryModules = [], sg_groups = [],
       sg_entrypoints = [], sg_nextChunk = 0, sg_reasons = [], sg_filenames = [],
       sg_idHints = [] \<rparr>"

definition emptyPass :: "simpleGraph pass" where
  "emptyPass =
     \<lparr> indexMap = [], alreadyValidatedNames = [], chunksInfoMap = [], maxSizeQueueMap = [],
       errors = [], warnings = [], graph = emptyGraph \<rparr>"

definition moduleA :: module where
  "moduleA = \<lparr> module_identifier = ''a.js'', sourceSizes = [(''javascript'', 40)] \<rparr>"


definition moduleB :: module where
  "moduleB = \<lparr> module_identifier = ''b.js'', sourceSizes = [(''javascript'', 60)] \<rparr>"

definition moduleC :: module where
  "moduleC = \<lparr> module_identifier = ''c.js'', sourceSizes = [(''javascript'', 25)] \<rparr>"

definition exampleGroup :: "simpleGraph cacheGroup" where
  "exampleGroup = createCacheGroup exampleOptions exampleSource"

definition exampleInfo :: "module list \<Rightarrow> chunk list \<Rightarrow> simpleGraph chunksInfoItem" where
  "exampleInfo ms cs =
     \<lparr> modules = ms, cacheGroup = exampleGroup, name = None, validateSize = False,
       sizes = [], chunks = cs, reuseableChunks = [], chunksKeys = [] \<rparr>"

definition examplePending :: "(string \<times> simpleGraph chunksInfoItem) list" where
  "examplePending =
     [(''vendors chunks:3'', exampleInfo [moduleC] [3]),
      (''vendors chunks:1,2'', exampleInfo [moduleB] [1, 2]),
      (''vendors chunks:2,3'', exampleInfo [moduleA] [2, 3])]"


text \<open>
  Where the numbers come from. A module has \<open>plainTypes\<close> when none of its source types
  names a property of \<^verbatim>\<open>Object.prototype\<close>. A candidate is \<open>wellTracked\<close> when its recorded
  sizes are numbers, its modules have plain types and, if it tracks sizes, a size is
  recorded under every source type of its modules.
\<close>

definition plainTypes :: "module \<Rightarrow> bool" where
  "plainTypes m \<longleftrightarrow>
     list_all (\<lambda>(type, moduleSize). type \<notin> set objectPrototypeKeys) (sourceSizes m)"

definition wellTracked :: "'g chunksInfoItem \<Rightarrow> bool" where
  "wellTracked info \<longleftrightarrow>
     numericSizes info
     \<and> list_all plainTypes (modules info)
     \<and> (validateSize info \<longrightarrow>
          list_all (\<lambda>m. list_all (\<lambda>(type, moduleSize). type \<in> set (objectKeys (sizes info)))
                             (sourceSizes m))
                   (modules info))"

definition wellTrackedPending :: "'g pass \<Rightarrow> bool" where
  "wellTrackedPending st \<longleftrightarrow> list_all (\<lambda>(k, info). wellTracked info) (chunksInfoMap st)"





text \<open>
  The reuse decision in terms of its result: the chunks of the candidate that pass the
  three tests, and what makes one of them the chosen one. A chunk is \<open>named\<close> when its name
  is a non-empty string; names are ordered by length first, then as strings.
\<close>

definition matchingChunks :: "'g ops \<Rightarrow> 'g \<Rightarrow> 'g chunksInfoItem \<Rightarrow> chunk list" where
  "matchingChunks G g item = filter (chunkMatches G g item) (chunks item)"

definition named :: "'g ops \<Rightarrow> 'g \<Rightarrow> chunk \<Rightarrow> bool" where
  "named G g c \<longleftrightarrow> truthy (chunkName G g c)"

definition nameLeq :: "string \<Rightarrow> string \<Rightarrow> bool" where
  "nameLeq a b \<longleftrightarrow> length a < length b \<or> (length a = length b \<and> a \<le> b)"

definition bestReusable :: "'g ops \<Rightarrow> 'g \<Rightarrow> chunk list \<Rightarrow> chunk \<Rightarrow> bool" where
  "bestReusable G g cs r \<longleftrightarrow>
     r \<in> set cs
     \<and> (\<forall>c \<in> set cs. \<forall>cName. chunkName G g c = Some cName \<and> cName \<noteq> [] \<longrightarrow>
           (\<exists>rName. chunkName G g r = Some rName \<and> rName \<noteq> [] \<and> nameLeq rName cName))
     \<and> ((\<forall>c \<in> set cs. \<not> named G g c) \<longrightarrow> r = last cs)"

definition reuseGraph :: simpleGraph where
  "reuseGraph =
     \<lparr> sg_names = [(3, ''ab''), (4, ''b'')],
       sg_modules = [(2, [moduleA]), (3, [moduleA]), (4, [moduleA]), (5, [moduleA, moduleB])],
       sg_entryModules = [],
       sg_groups = [(10, True, [2, 5]), (11, False, [3, 4, 5])],
       sg_entrypoints = [], sg_nextChunk = 6, sg_reasons = [], sg_filenames = [],
       sg_idHints = [] \<rparr>"

definition reuseItem :: "chunk list \<Rightarrow> simpleGraph chunksInfoItem" where
  "reuseItem cs =
     (exampleInfo [moduleA] cs)
       \<lparr> cacheGroup := exampleGroup\<lparr> reuseExistingChunk := Some True \<rparr>,
         name := Some ''shared'' \<rparr>"


text \<open>
  What \<open>chunkSetsByCount\<close> holds for a collection \<open>seen\<close> of registered sets: one bucket
  per size, each set in the bucket of its size, and nothing else.
\<close>

definition bucketsOf :: "(nat \<times> chunk list list) list \<Rightarrow> chunk list set \<Rightarrow> bool" where
  "bucketsOf byCount seen \<longleftrightarrow>
     distinct (map fst byCount)
     \<and> (\<forall>count array. map_of byCount count = Some array \<longrightarrow>
           (\<forall>t \<in> set array. length t = count \<and> t \<in> seen))
     \<and> (\<forall>t \<in> seen. \<exists>array. map_of byCount (length t) = Some array \<and> t \<in> set array)"

definition indexerGraph :: "(chunk \<times> module list) list \<Rightarrow> simpleGraph" where
  "indexerGraph ms = emptyGraph\<lparr> sg_modules := ms, sg_nextChunk := 5 \<rparr>"


text \<open>
  Names for the values of one iteration (lines 706-775) and for the three ways it can
  go: \<open>skipped\<close> is the \<^verbatim>\<open>continue\<close> of line 752, \<open>overBudget\<close> the condition of lines 754-775
  under which the candidate is handed back or dropped, and \<open>materializes\<close> what is left.
\<close>

definition newChunkOf :: "'g ops \<Rightarrow> 'g \<Rightarrow> 'g chunksInfoItem \<Rightarrow> chunk option" where
  "newChunkOf G g item = fst (reuseDecision G g item)"

definition chunkNameOf :: "'g ops \<Rightarrow> 'g \<Rightarrow> 'g chunksInfoItem \<Rightarrow> string option" where
  "chunkNameOf G g item = fst (snd (reuseDecision G g item))"

definition isReusedOf :: "'g ops \<Rightarrow> 'g \<Rightarrow> 'g chunksInfoItem \<Rightarrow> bool" where
  "isReusedOf G g item = snd (snd (reuseDecision G g item))"

definition usedOf :: "'g ops \<Rightarrow> 'g \<Rightarrow> 'g chunksInfoItem \<Rightarrow> chunk list" where
  "usedOf G g item = usedChunksOf G g item (chunkNameOf G g item) (newChunkOf G g item)"

definition inLimitOf :: "'g ops \<Rightarrow> 'g \<Rightarrow> 'g chunksInfoItem \<Rightarrow> chunk list" where
  "inLimitOf G g item =
     chunksInLimitOf G g (cacheGroup item) (usedOf G g item) (newChunkOf G g item)"

definition targetOf :: "'g ops \<Rightarrow> 'g \<Rightarrow> 'g chunksInfoItem \<Rightarrow> chunk \<times> 'g" where
  "targetOf G g item =
     prepareTarget G item (chunkNameOf G g item) (newChunkOf G g item) (usedOf G g item) g"

definition skipped :: "'g ops \<Rightarrow> 'g \<Rightarrow> 'g chunksInfoItem \<Rightarrow> bool" where
  "skipped G g item \<longleftrightarrow> length (usedOf G g item) = 0 \<and> \<not> isReusedOf G g item"

definition overBudget :: "'g ops \<Rightarrow> 'g \<Rightarrow> 'g chunksInfoItem \<Rightarrow> bool" where
  "overBudget G g item \<longleftrightarrow>
     (isFinite (maxInitialRequests (cacheGroup item))
        \<or> isFinite (maxAsyncRequests (cacheGroup item)))
     \<and> length (inLimitOf G g item) < length (usedOf G g item)"

definition materializes :: "'g ops \<Rightarrow> 'g \<Rightarrow> 'g chunksInfoItem \<Rightarrow> bool" where
  "materializes G g item \<longleftrightarrow> \<not> skipped G g item \<and> \<not> overBudget G g item"


text \<open>
  The threshold check in the spec's words (section 4.1): a size map satisfies a \<open>minSize\<close>
  threshold when every key of the threshold exists in the size map and its value there
  is at least the threshold.
\<close>

definition satisfiesMinSize :: "plainSizes \<Rightarrow> sizes \<Rightarrow> bool" where
  "satisfiesMinSize s t \<longleftrightarrow>
     list_all (\<lambda>(key, m). case map_of s key of
                              Some (Num n) \<Rightarrow> m \<le> n
                            | Some NaN \<Rightarrow> False
                            | Some NonNumber \<Rightarrow> False
                            | None \<Rightarrow> False) t"

text \<open>
  The retraction, in terms of its result. \<open>sizeUnder m t\<close> is the size of the module \<open>m\<close>
  under the source type \<open>t\<close> (\<open>0\<close> when it has no such type) and \<open>removedSize item info t\<close>
  the size under \<open>t\<close> of the modules the candidate \<open>info\<close> loses to \<open>item\<close>.
  \<open>retracted item info info'\<close>: what a surviving candidate \<open>info\<close> has become once \<open>item\<close>
  was materialized. \<open>thresholdSource\<close> is an enforced group configured with
  \<^verbatim>\<open>minSize: {toString: 1}\<close>.
\<close>

definition sizeUnder :: "module \<Rightarrow> string \<Rightarrow> int" where
  "sizeUnder m t = (\<Sum>(type, moduleSize) \<leftarrow> sourceSizes m. if type = t then moduleSize else 0)"

definition removedSize :: "'g chunksInfoItem \<Rightarrow> 'g chunksInfoItem \<Rightarrow> string \<Rightarrow> int" where
  "removedSize item info t = (\<Sum>m \<in> set (modules item) \<inter> set (modules info). sizeUnder m t)"

definition retracted :: "'g chunksInfoItem \<Rightarrow> 'g chunksInfoItem \<Rightarrow> 'g chunksInfoItem \<Rightarrow> bool" where
  "retracted item info info' \<longleftrightarrow>
     (if isOverlap (chunks info) (chunks item) then
        set (modules info') = set (modules info) - set (modules item)
        \<and> (modules info \<noteq> [] \<longrightarrow> modules info' \<noteq> [])
        \<and> (validateSize info \<and> set (modules info) \<inter> set (modules item) \<noteq> {}
             \<longrightarrow> checkMinSize (sizes info') (minSize (cacheGroup info)))
        \<and> (if validateSize info then
              (\<forall>t n. t \<noteq> ''__proto__'' \<and> map_of (sizes info) t = Some (Num n) \<longrightarrow>
                 map_of (sizes info') t = Some (Num (n - removedSize item info t)))
            else sizes info' = sizes info)
        \<and> cacheGroup info' = cacheGroup info \<and> chunks info' = chunks info
        \<and> validateSize info' = validateSize info \<and> name info' = name info
      else info' = info)"

definition thresholdSource :: "simpleGraph cacheGroupSource" where
  "thresholdSource = exampleSource\<lparr> source_minSize := JSObject [(''toString'', 1)] \<rparr>"

definition trackedInfo ::
  "sizes \<Rightarrow> module list \<Rightarrow> chunk list \<Rightarrow> plainSizes \<Rightarrow> simpleGraph chunksInfoItem"
where
  "trackedInfo threshold ms cs szs =
     (exampleInfo ms cs)
       \<lparr> cacheGroup := exampleGroup\<lparr> minSize := threshold \<rparr>,
         validateSize := True, sizes := szs \<rparr>"

definition retractPending :: "(string \<times> simpleGraph chunksInfoItem) list" where
  "retractPending =
     [(''a'', exampleInfo [moduleA, moduleB] [2, 3]),
      (''b'', exampleInfo [moduleA] [3, 4]),
      (''c'', trackedInfo [(''javascript'', 50)] [moduleA, moduleB] [2, 5]
                [(''javascript'', Num 100)]),
      (''d'', trackedInfo [(''javascript'', 70)] [moduleA, moduleB] [2, 5]
                [(''javascript'', Num 100)]),
      (''e'', exampleInfo [moduleA] [6, 7]),
      (''f'', trackedInfo [(''toString'', 1)] [moduleA, moduleB] [2, 5]
                [(''javascript'', Num 100)])]"

definition filenameGraph :: "bool \<Rightarrow> simpleGraph" where
  "filenameGraph initial =
     emptyGraph\<lparr> sg_modules := [(2, [moduleA]), (3, [moduleA])],
                 sg_groups := [(10, True, [2]), (11, initial, [3])],
                 sg_nextChunk := 4 \<rparr>"

definition filenameItem :: "simpleGraph chunksInfoItem" where
  "filenameItem =
     (exampleInfo [moduleA] [2, 3])
       \<lparr> cacheGroup := exampleGroup\<lparr> filename := Some ''shared.js'' \<rparr> \<rparr>"

definition filenamePass :: "bool \<Rightarrow> simpleGraph pass" where
  "filenamePass initial =
     emptyPass\<lparr> indexMap := [(2, 1), (3, 2)],
                chunksInfoMap := [(''vendors chunks:1,2'', filenameItem)],
                graph := filenameGraph initial \<rparr>"

text \<open>
  A pass in which the candidate \<open>item\<close>, of the higher priority, is chosen and
  materialized while \<open>retractPending\<close> is pending.
\<close>

definition retractItem :: "simpleGraph chunksInfoItem" where
  "retractItem =
     (exampleInfo [moduleA, moduleC] [2, 3]) \<lparr> cacheGroup := exampleGroup\<lparr> priority := 1 \<rparr> \<rparr>"

definition retractPass :: "simpleGraph pass" where
  "retractPass =
     emptyPass\<lparr> indexMap := [(2, 1), (3, 2)],
                chunksInfoMap := retractPending @ [(''item'', retractItem)],
                graph := filenameGraph True \<rparr>"

definition requeuedUnder ::
  "'g cacheGroup \<Rightarrow> getNameFunction \<Rightarrow> chunk list \<Rightarrow> string \<Rightarrow> module list \<Rightarrow> string \<Rightarrow> module set"
where
  "requeuedUnder cg f cs ck ms K = {m \<in> set ms. infoKey cg (f m cs (key cg)) ck = K}"

definition requeued ::
  "'g cacheGroup \<Rightarrow> getNameFunction \<Rightarrow> chunk list \<Rightarrow> string \<Rightarrow> module list
     \<Rightarrow> (string \<times> 'g chunksInfoItem) list \<Rightarrow> (string \<times> 'g chunksInfoItem) list \<Rightarrow> bool"
where
  "requeued cg f cs ck ms before after \<longleftrightarrow>
     (\<forall>K. case map_of before K of
            Some i \<Rightarrow>
              (\<exists>i'. map_of after K = Some i'
                 \<and> name i' = name i \<and> cacheGroup i' = cacheGroup i
                 \<and> set (modules i') = set (modules i) \<union> requeuedUnder cg f cs ck ms K
                 \<and> set (chunks i) \<subseteq> set (chunks i')
                 \<and> set (chunks i') \<subseteq> set (chunks i) \<union> set cs
                 \<and> set (chunksKeys i) \<subseteq> set (chunksKeys i')
                 \<and> (requeuedUnder cg f cs ck ms K \<noteq> {} \<longrightarrow> ck \<in> set (chunksKeys i')))
          | None \<Rightarrow>
              (case map_of after K of
                 None \<Rightarrow> requeuedUnder cg f cs ck ms K = {}
               | Some i' \<Rightarrow>
                   cacheGroup i' = cg \<and> set (chunks i') = set cs \<and> ck \<in> set (chunksKeys i')
                   \<and> (\<exists>m \<in> requeuedUnder cg f cs ck ms K. name i' = f m cs (key cg))
                   \<and> set (modules i') = requeuedUnder cg f cs ck ms K))"

definition requeueGraph :: simpleGraph where
  "requeueGraph =
     emptyGraph\<lparr> sg_modules := [(2, [moduleA, moduleB]), (3, [moduleA, moduleC])],
                 sg_groups := [(10, True, [2, 7, 8, 9]), (11, False, [3])],
                 sg_nextChunk := 10 \<rparr>"

definition requeueItem :: "int \<Rightarrow> simpleGraph chunksInfoItem" where
  "requeueItem n =
     (exampleInfo [moduleA] [2, 3])
       \<lparr> cacheGroup := exampleGroup\<lparr> minChunks := n \<rparr>, name := Some ''shared'' \<rparr>"

definition requeuePass :: "int \<Rightarrow> simpleGraph pass" where
  "requeuePass n =
     emptyPass\<lparr> indexMap := [(2, 1), (3, 2)],
                chunksInfoMap := [(''vendors name:shared'', requeueItem n)],
                graph := requeueGraph \<rparr>"













section \<open>Properties\<close>

subsection \<open>The threshold check\<close>

lemma checkMinSize_reads:
  "checkMinSize s t
     = list_all (\<lambda>(k, m). case plainGet s k of
                                Some v \<Rightarrow> \<not> valueLess v m
                              | None \<Rightarrow> False) t"
proof (induction t)
  case Nil
  show ?case by simp
next
  case (Cons e t)
  obtain k m where e: "e = (k, m)" by (cases e)
  show ?case
    using Cons.IH by (cases "plainGet s k") (simp_all add: e)
qed

lemma plainGet_own: "k \<notin> set objectPrototypeKeys \<Longrightarrow> plainGet s k = map_of s k"
  by (simp add: plainGet_def split: option.splits)

lemma numeric_lookup:
  "list_all (\<lambda>(k, v). isNumber v) s \<Longrightarrow> map_of s k = Some v \<Longrightarrow> \<exists>n. v = Num n"
proof -
  assume a: "list_all (\<lambda>(k, v). isNumber v) s" and m: "map_of s k = Some v"
  from m have "(k, v) \<in> set s" by (rule map_of_SomeD)
  with a have "isNumber v" unfolding list_all_iff by auto
  then show ?thesis by (cases v) simp_all
qed

text \<open>
  On the inputs where no property of \<^verbatim>\<open>Object.prototype\<close> is read and every recorded size
  is a number, \<open>checkMinSize\<close> is the threshold check of the spec.
\<close>

lemma checkMinSize_satisfies:
  assumes "set (objectKeys t) \<inter> set objectPrototypeKeys = {}"
    and "list_all (\<lambda>(k, v). isNumber v) s"
  shows "checkMinSize s t \<longleftrightarrow> satisfiesMinSize s t"
proof -
  have "(case plainGet s k of Some v \<Rightarrow> \<not> valueLess v m | None \<Rightarrow> False)
      = (case map_of s k of Some (Num n) \<Rightarrow> m \<le> n | Some NaN \<Rightarrow> False
           | Some NonNumber \<Rightarrow> False | None \<Rightarrow> False)"
    if "(k, m) \<in> set t" for k m
  proof -
    from that assms(1) have "k \<notin> set objectPrototypeKeys"
      by (force simp: objectKeys_def)
    then have g: "plainGet s k = map_of s k" by (rule plainGet_own)
    show ?thesis
    proof (cases "map_of s k")
      case None
      then show ?thesis by (simp add: g)
    next
      case (Some v)
      with numeric_lookup [OF assms(2)] obtain n where "v = Num n" by blast
      with Some show ?thesis by (auto simp: g)
    qed
  qed
  then show ?thesis
    unfolding checkMinSize_reads satisfiesMinSize_def list_all_iff by fast
qed

text \<open>
  Claim C6. \<open>checkMinSize s t\<close> is true exactly when, for every key of the threshold \<open>t\<close>,
  the read \<^verbatim>\<open>s[key]\<close> is not \<^verbatim>\<open>undefined\<close> and not less than the threshold; the empty threshold
  is satisfied by every \<open>s\<close>. The read goes through \<^verbatim>\<open>Object.prototype\<close>: with the threshold
  \<^verbatim>\<open>{toString: 1}\<close> and the sizes \<^verbatim>\<open>{javascript: 40}\<close> the key is missing from the size map,
  the read finds the inherited function, and the check passes, although the size map
  does not satisfy the threshold. The pass meets these arguments: for a cache group with
  \<^verbatim>\<open>minSize: {toString: 1}\<close> the module \<open>a.js\<close> of size \<open>40\<close> gives a candidate with these
  sizes, and the filter of lines 673-682 keeps it.
\<close>

theorem checkMinSize_inherited_key:
  "checkMinSize s t
     = list_all (\<lambda>(k, m). case plainGet s k of
                              Some v \<Rightarrow> \<not> valueLess v m
                            | None \<Rightarrow> False) t
   \<and> checkMinSize s []
   \<and> map_of [(''javascript'', Num 40)] ''toString'' = None
   \<and> plainGet [(''javascript'', Num 40)] ''toString'' = Some NonNumber
   \<and> checkMinSize [(''javascript'', Num 40)] [(''toString'', 1)]
   \<and> \<not> satisfiesMinSize [(''javascript'', Num 40)] [(''toString'', 1)]
   \<and> \<not> checkMinSize [(''javascript'', Num 40)] [(''css'', 1)]
   \<and> \<not> checkMinSize [(''javascript'', Num 40)] [(''javascript'', 41)]
   \<and> checkMinSize [(''javascript'', Num 40)] [(''javascript'', 40)]
   \<and> (\<exists>st'. addModuleToChunksInfoMap simpleOps (createCacheGroup exampleOptions thresholdSource)
                [2, 3] ''1,2'' moduleA emptyPass = Inr st'
          \<and> map (\<lambda>(k, info). (k, validateSize info, sizes info, minSize (cacheGroup info)))
                 (filterBySize (chunksInfoMap st'))
              = [(''vendors name:shared'', True, [(''javascript'', Num 40)], [(''toString'', 1)])])"
  by (simp add: checkMinSize_reads plainGet_def plainSet_def objectPrototypeKeys_def
      satisfiesMinSize_def thresholdSource_def exampleSource_def exampleOptions_def
      addModuleToChunksInfoMap_def createCacheGroup_def Let_def validateName_def emptyPass_def
      infoKey_def newInfo_def addToInfo_def addSizes_def mergeSizes_def objectAssign_def
      objectKeys_def setAdd_def moduleA_def filterBySize_def)

subsection \<open>Size maps\<close>

lemma update_fresh: "k \<notin> fst ` set al \<Longrightarrow> AList.update k v al = al @ [(k, v)]"
  by (induction al) auto

lemma fold_update_distinct:
  "distinct (map fst (t @ obj)) \<Longrightarrow>
   fold (\<lambda>(key, v) acc. AList.update key v acc) obj t = t @ obj"
proof (induction obj arbitrary: t)
  case Nil then show ?case by simp
next
  case (Cons p obj)
  obtain k v where p: "p = (k, v)" by (cases p)
  have fresh: "k \<notin> fst ` set t" using Cons.prems p by auto
  have "distinct (map fst ((t @ [(k, v)]) @ obj))" using Cons.prems p by auto
  from Cons.IH [OF this] show ?case using fresh p by (simp add: update_fresh)
qed

lemma objectAssign_empty: "distinct (objectKeys obj) \<Longrightarrow> objectAssign [] obj = obj"
  unfolding objectAssign_def objectKeys_def using fold_update_distinct [of "[]" obj] by simp

lemma distinct_fold_update:
  "distinct (map fst t) \<Longrightarrow> distinct (map fst (fold (\<lambda>(key, v) acc. AList.update key v acc) obj t))"
  by (induction obj arbitrary: t) (auto simp: distinct_update)

lemma distinct_objectAssign: "distinct (objectKeys t) \<Longrightarrow> distinct (objectKeys (objectAssign t obj))"
  unfolding objectAssign_def objectKeys_def by (rule distinct_fold_update)

lemma distinct_normalizeSizes: "distinct (objectKeys (normalizeSizes v))"
proof (cases v)
  case (JSObject obj)
  have "distinct (objectKeys (objectAssign [] obj))"
    by (rule distinct_objectAssign) (simp add: objectKeys_def)
  with JSObject show ?thesis by simp
qed (simp_all add: objectKeys_def)

lemma mergeSizes_empty_default: "mergeSizes v (JSObject []) = normalizeSizes v"
proof -
  have e: "objectAssign [] [] = []" by (simp add: objectAssign_def)
  have "objectAssign [] (normalizeSizes v) = normalizeSizes v"
    by (rule objectAssign_empty) (rule distinct_normalizeSizes)
  then show ?thesis by (simp add: mergeSizes_def Let_def e)
qed


lemma set_update_cases:
  "(k, v) \<in> set (AList.update k' v' al) \<Longrightarrow> (k, v) = (k', v') \<or> (k, v) \<in> set al"
  by (induction al) (auto split: if_splits)

subsection \<open>Cache groups\<close>

text \<open>
  Claim C2. For a cache-group source with \<open>enforce\<close> set to true, the cache group built
  for it has \<open>minSize\<close> and \<open>maxSize\<close> merged against empty maps, which is the source's
  own normalized map; \<open>minChunks\<close> is 1 and both request ceilings are \<open>Infinity\<close> unless the
  source gives them; and none of the five depends on the global options (\<open>opts\<close>, \<open>opts'\<close>).
  (\<open>minSizeForMaxSize\<close>, which the max-size pass reads, is not among them.)
\<close>

theorem enforce_bypasses_global_defaults:
  assumes "source_enforce src = Some True"
  shows "minSize (createCacheGroup opts src) = mergeSizes (source_minSize src) (JSObject [])
       \<and> maxSize (createCacheGroup opts src) = mergeSizes (source_maxSize src) (JSObject [])
       \<and> mergeSizes (source_minSize src) (JSObject []) = normalizeSizes (source_minSize src)
       \<and> mergeSizes (source_maxSize src) (JSObject []) = normalizeSizes (source_maxSize src)
       \<and> minChunks (createCacheGroup opts src)
           = (case source_minChunks src of Some n \<Rightarrow> n | None \<Rightarrow> 1)
       \<and> maxAsyncRequests (createCacheGroup opts src)
           = (case source_maxAsyncRequests src of Some n \<Rightarrow> n | None \<Rightarrow> Infinity)
       \<and> maxInitialRequests (createCacheGroup opts src)
           = (case source_maxInitialRequests src of Some n \<Rightarrow> n | None \<Rightarrow> Infinity)
       \<and> minSize (createCacheGroup opts' src) = minSize (createCacheGroup opts src)
       \<and> maxSize (createCacheGroup opts' src) = maxSize (createCacheGroup opts src)
       \<and> minChunks (createCacheGroup opts' src) = minChunks (createCacheGroup opts src)
       \<and> maxAsyncRequests (createCacheGroup opts' src)
           = maxAsyncRequests (createCacheGroup opts src)
       \<and> maxInitialRequests (createCacheGroup opts' src)
           = maxInitialRequests (createCacheGroup opts src)"
  using assms by (simp add: createCacheGroup_def mergeSizes_empty_default)

theorem enforce_bypasses_global_defaults_witness:
  "source_enforce exampleSource = Some True
   \<and> minSize (createCacheGroup exampleOptions exampleSource) = []
   \<and> maxSize (createCacheGroup exampleOptions exampleSource) = [(''css'', 500)]
   \<and> minChunks (createCacheGroup exampleOptions exampleSource) = 1
   \<and> maxAsyncRequests (createCacheGroup exampleOptions exampleSource) = Infinity
   \<and> maxInitialRequests (createCacheGroup exampleOptions exampleSource) = Finite 4"
proof -
  have e: "source_enforce exampleSource = Some True" by (simp add: exampleSource_def)
  have v: "normalizeSizes (source_minSize exampleSource) = []"
    "normalizeSizes (source_maxSize exampleSource) = [(''css'', 500)]"
    "source_minChunks exampleSource = None"
    "source_maxAsyncRequests exampleSource = None"
    "source_maxInitialRequests exampleSource = Some (Finite 4)"
    by (simp_all add: exampleSource_def objectAssign_def)
  show ?thesis
    using e enforce_bypasses_global_defaults [OF e, of exampleOptions exampleOptions]
    by (simp add: v mergeSizes_empty_default)
qed

subsection \<open>Size tracking\<close>

lemma validateName_chunksInfoMap [simp]:
  "chunksInfoMap (validateName G cg nm st) = chunksInfoMap st"
  by (simp add: validateName_def)



lemma addModule_cases:
  assumes "addModuleToChunksInfoMap G cg cs ck m st = Inr st'"
  shows "st' = st \<or>
     (\<exists>f info. getName cg = Some f \<and> \<not> int (length cs) < minChunks cg \<and>
        (info = newInfo cg (f m cs (key cg)) \<and>
            map_of (chunksInfoMap st) (infoKey cg (f m cs (key cg)) ck) = None
         \<or> map_of (chunksInfoMap st) (infoKey cg (f m cs (key cg)) ck) = Some info) \<and>
        st' = (validateName G cg (f m cs (key cg)) st)
          \<lparr> chunksInfoMap :=
              AList.update (infoKey cg (f m cs (key cg)) ck) (addToInfo m cs ck info)
                (chunksInfoMap st) \<rparr>)"
  using assms unfolding addModuleToChunksInfoMap_def Let_def
  by (auto split: if_splits option.splits)




subsection \<open>The selection\<close>

lemma compareModuleIterables_less:
  "compareModuleIterables xs ys < 0 \<longleftrightarrow> map module_identifier xs < map module_identifier ys"
  unfolding compareModuleIterables_def
  by (induction compareModulesByIdentifier xs ys rule: compareIterables.induct)
     (auto simp: compareModulesByIdentifier_def Let_def)

lemma compareModuleIterables_eq:
  "compareModuleIterables xs ys = 0 \<longleftrightarrow> map module_identifier xs = map module_identifier ys"
  unfolding compareModuleIterables_def
  by (induction compareModulesByIdentifier xs ys rule: compareIterables.induct)
     (auto simp: compareModulesByIdentifier_def Let_def)

lemma fold_valueAdd_numeric:
  "list_all (\<lambda>(t, v). isNumber v) xs \<Longrightarrow>
     fold (\<lambda>(key, v) sz. valueAdd sz v) xs (Num acc) = Num (acc + (\<Sum>(t, v) \<leftarrow> xs. numberOf v))"
proof (induction xs arbitrary: acc)
  case Nil
  show ?case by simp
next
  case (Cons x xs)
  obtain t v where x: "x = (t, v)" by (cases x)
  from Cons.prems have "isNumber v" by (simp add: x)
  then obtain n where v: "v = Num n" by (cases v) simp_all
  from Cons.prems have "list_all (\<lambda>(t, v). isNumber v) xs" by simp
  from Cons.IH [OF this, of "acc + n"] show ?case by (simp add: x v)
qed

lemma totalSize_numeric: "numericSizes a \<Longrightarrow> totalSize (sizes a) = Num (sizeSum a)"
  unfolding numericSizes_def totalSize_def sizeSum_def
  using fold_valueAdd_numeric [of "sizes a" 0] by simp

lemma compareEntries_numeric:
  assumes "numericSizes a" and "numericSizes b"
  shows "compareEntries a b =
     (if priority (cacheGroup a) \<noteq> priority (cacheGroup b)
      then priority (cacheGroup a) - priority (cacheGroup b)
      else if length (chunks a) \<noteq> length (chunks b)
      then int (length (chunks a)) - int (length (chunks b))
      else if sizeReduce a \<noteq> sizeReduce b then sizeReduce a - sizeReduce b
      else if length (modules a) \<noteq> length (modules b)
      then int (length (modules a)) - int (length (modules b))
      else compareModuleIterables (sortModules (modules b)) (sortModules (modules a)))"
  unfolding compareEntries_def Let_def sizeReduce_def
    totalSize_numeric [OF assms(1)] totalSize_numeric [OF assms(2)]
  by simp

lemma compareEntries_less:
  "numericSizes a \<Longrightarrow> numericSizes b \<Longrightarrow> compareEntries a b < 0 \<longleftrightarrow> preferred b a"
  unfolding compareEntries_numeric preferred_def sortedIdentifiers_def
  by (auto simp: compareModuleIterables_less)



lemma preferred_trans:
  assumes "preferred a b" and "preferred b c"
  shows "preferred a c"
proof -
  have l: "\<And>x y z :: string list. x < y \<Longrightarrow> y < z \<Longrightarrow> x < z" by (rule less_trans)
  show ?thesis
    using assms unfolding preferred_def
    by (elim disjE conjE) (simp_all add: l [of "sortedIdentifiers a" "sortedIdentifiers b"])
qed

lemma preferred_irrefl: "\<not> preferred a a"
  unfolding preferred_def by simp

lemma bestStep_Some:
  "numericSizes e1 \<Longrightarrow> numericSizes be \<Longrightarrow>
     bestStep (k1, e1) (Some (bk, be))
       = (if preferred e1 be then Some (k1, e1) else Some (bk, be))"
  by (simp add: bestStep_def compareEntries_less)

lemma findBest_fold:
  assumes "numericSizes be" and "\<forall>(k, e) \<in> set pending. numericSizes e"
  shows "\<exists>k e. fold bestStep pending (Some (bk, be)) = Some (k, e)
     \<and> ((k, e) = (bk, be) \<or> (k, e) \<in> set pending)
     \<and> \<not> preferred be e
     \<and> (\<forall>(k', e') \<in> set pending. \<not> preferred e' e)
     \<and> (\<forall>x. \<not> preferred x be \<longrightarrow> \<not> preferred x e)"
  using assms
proof (induction pending arbitrary: bk be)
  case Nil
  show ?case by (simp add: preferred_irrefl)
next
  case (Cons p pending)
  obtain k1 e1 where p: "p = (k1, e1)" by (cases p)
  from Cons.prems have n1: "numericSizes e1" and
    nr: "\<forall>(k, e) \<in> set pending. numericSizes e"
    by (simp_all add: p)
  note step = bestStep_Some [OF n1 Cons.prems(1), of k1 bk]
  show ?case
  proof (cases "preferred e1 be")
    case True
    from Cons.IH [OF n1 nr, of k1] obtain k e where
      r: "fold bestStep pending (Some (k1, e1)) = Some (k, e)"
      and m: "(k, e) = (k1, e1) \<or> (k, e) \<in> set pending"
      and b: "\<not> preferred e1 e"
      and a: "\<forall>(k', e') \<in> set pending. \<not> preferred e' e"
      and t: "\<forall>x. \<not> preferred x e1 \<longrightarrow> \<not> preferred x e"
      by blast
    have r': "fold bestStep (p # pending) (Some (bk, be)) = Some (k, e)"
      using r True by (simp add: p step)
    have m': "(k, e) = (bk, be) \<or> (k, e) \<in> set (p # pending)"
      using m p by auto
    have b': "\<not> preferred be e" using True b preferred_trans by blast
    have a': "\<forall>(k', e') \<in> set (p # pending). \<not> preferred e' e"
      using a b p by simp
    have t': "\<forall>x. \<not> preferred x be \<longrightarrow> \<not> preferred x e"
      using True t preferred_trans by blast
    show ?thesis using r' m' b' a' t' by blast
  next
    case False
    from Cons.IH [OF Cons.prems(1) nr, of bk] obtain k e where
      r: "fold bestStep pending (Some (bk, be)) = Some (k, e)"
      and m: "(k, e) = (bk, be) \<or> (k, e) \<in> set pending"
      and b: "\<not> preferred be e"
      and a: "\<forall>(k', e') \<in> set pending. \<not> preferred e' e"
      and t: "\<forall>x. \<not> preferred x be \<longrightarrow> \<not> preferred x e"
      by blast
    have r': "fold bestStep (p # pending) (Some (bk, be)) = Some (k, e)"
      using r False by (simp add: p step)
    have m': "(k, e) = (bk, be) \<or> (k, e) \<in> set (p # pending)"
      using m by auto
    have e1: "\<not> preferred e1 e" using False t by blast
    have a': "\<forall>(k', e') \<in> set (p # pending). \<not> preferred e' e"
      using a e1 p by simp
    show ?thesis using r' m' b a' t by blast
  qed
qed

lemma findBestEntry_max:
  assumes "pending \<noteq> []" and "\<forall>(k, e) \<in> set pending. numericSizes e"
  shows "\<exists>k e. findBestEntry pending = Some (k, e) \<and> (k, e) \<in> set pending
           \<and> (\<forall>(k', e') \<in> set pending. \<not> preferred e' e)"
proof -
  obtain k1 e1 rest where p: "pending = (k1, e1) # rest"
    using assms(1) by (cases pending) auto
  from assms(2) have n1: "numericSizes e1" and nr: "\<forall>(k, e) \<in> set rest. numericSizes e"
    by (simp_all add: p)
  from findBest_fold [OF n1 nr, of k1] obtain k e where
    r: "fold bestStep rest (Some (k1, e1)) = Some (k, e)"
    and m: "(k, e) = (k1, e1) \<or> (k, e) \<in> set rest"
    and b: "\<not> preferred e1 e"
    and a: "\<forall>(k', e') \<in> set rest. \<not> preferred e' e"
    by blast
  have f: "findBestEntry pending = Some (k, e)"
    using r by (simp add: findBestEntry_def p bestStep_def)
  have m': "(k, e) \<in> set pending" using m p by auto
  have a': "\<forall>(k', e') \<in> set pending. \<not> preferred e' e" using a b p by simp
  show ?thesis using f m' a' by blast
qed

lemma set_delete: "set (AList.delete k al) = {(k', v) \<in> set al. k' \<noteq> k}"
  by (induction al) auto





subsection \<open>Examples on the small chunk graph\<close>

lemma simpleOps_simps:
  "chunkName simpleOps g c = map_of (sg_names g) c"
  "groupsIterable simpleOps g c = map fst (sgGroupsOf g c)"
  "groupChunks simpleOps g grp
     = (case map_of (sg_groups g) grp of Some (initial, cs) \<Rightarrow> cs | None \<Rightarrow> [])"
  "isOnlyInitial simpleOps g c
     = (sgGroupsOf g c \<noteq> [] \<and> list_all (\<lambda>(grp, initial, cs). initial) (sgGroupsOf g c))"
  "canBeInitial simpleOps g c = list_ex (\<lambda>(grp, initial, cs). initial) (sgGroupsOf g c)"
  "getNumberOfChunkModules simpleOps g c = length (sgLookup (sg_modules g) c)"
  "getNumberOfEntryModules simpleOps g c = length (sgLookup (sg_entryModules g) c)"
  "isModuleInChunk simpleOps g m c = (m \<in> set (sgLookup (sg_modules g) c))"
  "getModuleChunksIterable simpleOps g m
     = map fst (filter (\<lambda>(c, ms). m \<in> set ms) (sg_modules g))"
  "chunkCondition simpleOps g m c = True"
  "namedChunksHas simpleOps g s = list_ex (\<lambda>(c, n). n = s) (sg_names g)"
  "entrypointsGet simpleOps g s = map_of (sg_entrypoints g) s"
  "addChunk simpleOps = sgAddChunk"
  "split simpleOps = sgSplit"
  "setChunkReason simpleOps c r g = g\<lparr> sg_reasons := AList.update c r (sg_reasons g) \<rparr>"
  "setFilenameTemplate simpleOps c f g = g\<lparr> sg_filenames := AList.update c f (sg_filenames g) \<rparr>"
  "addIdNameHint simpleOps c h g
     = g\<lparr> sg_idHints := AList.update c (setAdd h (sgLookup (sg_idHints g) c)) (sg_idHints g) \<rparr>"
  "connectChunkAndModule simpleOps c m g
     = g\<lparr> sg_modules := AList.update c (setAdd m (sgLookup (sg_modules g) c)) (sg_modules g) \<rparr>"
  "disconnectChunkAndModule simpleOps c m g
     = g\<lparr> sg_modules := AList.update c (removeAll m (sgLookup (sg_modules g) c)) (sg_modules g) \<rparr>"
  by (simp_all add: simpleOps_def)

lemmas example_simps =
  simpleOps_simps reuseGraph_def reuseItem_def exampleInfo_def exampleGroup_def sgLookup_def
  moduleA_def moduleB_def moduleC_def

subsection \<open>The reuse decision\<close>

lemma fold_filter_if:
  "fold (\<lambda>c acc. if P c then Some (h c acc) else acc) xs a
     = fold (\<lambda>c acc. Some (h c acc)) (filter P xs) a"
  by (induction xs arbitrary: a) auto

lemma findReusableChunk_matching:
  "findReusableChunk G g item
     = fold (\<lambda>c acc. Some (preferChunk G g c acc)) (matchingChunks G g item) None"
  unfolding findReusableChunk_def matchingChunks_def by (rule fold_filter_if)

lemma nameLeq_refl: "nameLeq a a"
  by (simp add: nameLeq_def)

lemma nameLeq_trans: "nameLeq a b \<Longrightarrow> nameLeq b c \<Longrightarrow> nameLeq a c"
  unfolding nameLeq_def by (auto intro: order_trans)

lemma preferChunk_unnamed: "\<not> named G g n \<Longrightarrow> preferChunk G g c (Some n) = c"
  by (auto simp: preferChunk_def named_def split: option.splits)

lemma preferChunk_named:
  assumes "chunkName G g n = Some nName" "nName \<noteq> []"
  shows "preferChunk G g c (Some n) = c \<and> (\<exists>cName. chunkName G g c = Some cName \<and> cName \<noteq> []
            \<and> nameLeq cName nName)
       \<or> preferChunk G g c (Some n) = n \<and> (\<forall>cName. chunkName G g c = Some cName \<and> cName \<noteq> []
            \<longrightarrow> nameLeq nName cName)"
  using assms unfolding preferChunk_def nameLeq_def
  by (auto split: option.splits)

lemma fold_prefer_best:
  "cs \<noteq> [] \<Longrightarrow>
   \<exists>r. fold (\<lambda>c acc. Some (preferChunk G g c acc)) cs None = Some r \<and> bestReusable G g cs r"
proof (induction cs rule: rev_induct)
  case Nil
  then show ?case by simp
next
  case (snoc c cs)
  show ?case
  proof (cases "cs = []")
    case True
    then show ?thesis
      by (auto simp: preferChunk_def bestReusable_def nameLeq_refl)
  next
    case False
    from snoc.IH [OF False] obtain r where
      r: "fold (\<lambda>c acc. Some (preferChunk G g c acc)) cs None = Some r"
      and b: "bestReusable G g cs r"
      by blast
    have f: "fold (\<lambda>c acc. Some (preferChunk G g c acc)) (cs @ [c]) None
        = Some (preferChunk G g c (Some r))"
      using r by simp
    have best: "bestReusable G g (cs @ [c]) (preferChunk G g c (Some r))"
    proof (cases "named G g r")
      case unn: False
      then have p: "preferChunk G g c (Some r) = c" by (rule preferChunk_unnamed)
      have none: "\<forall>x \<in> set cs. \<not> named G g x"
      proof
        fix x assume x: "x \<in> set cs"
        show "\<not> named G g x"
        proof
          assume "named G g x"
          then obtain xn where "chunkName G g x = Some xn" "xn \<noteq> []"
            unfolding named_def by (cases "chunkName G g x") auto
          with b x obtain rn where "chunkName G g r = Some rn" "rn \<noteq> []"
            unfolding bestReusable_def by blast
          with unn show False by (simp add: named_def)
        qed
      qed
      show ?thesis
        unfolding p bestReusable_def using none
        by (auto simp: nameLeq_refl named_def)
    next
      case nm: True
      then obtain rn where rn: "chunkName G g r = Some rn" "rn \<noteq> []"
        unfolding named_def by (cases "chunkName G g r") auto
      have rmin: "\<forall>x \<in> set cs. \<forall>xn. chunkName G g x = Some xn \<and> xn \<noteq> [] \<longrightarrow> nameLeq rn xn"
        using b rn unfolding bestReusable_def by auto
      have rin: "r \<in> set cs" using b unfolding bestReusable_def by blast
      from preferChunk_named [OF rn, of c] show ?thesis
      proof
        assume a: "preferChunk G g c (Some r) = c \<and> (\<exists>cName. chunkName G g c = Some cName
            \<and> cName \<noteq> [] \<and> nameLeq cName rn)"
        then obtain cn where cn: "chunkName G g c = Some cn" "cn \<noteq> []" "nameLeq cn rn"
          by blast
        have "\<forall>x \<in> set (cs @ [c]). \<forall>xn. chunkName G g x = Some xn \<and> xn \<noteq> [] \<longrightarrow> nameLeq cn xn"
          using rmin cn nameLeq_trans nameLeq_refl by auto
        moreover have "named G g c" using cn by (simp add: named_def)
        ultimately show ?thesis
          using a cn unfolding bestReusable_def by auto
      next
        assume a: "preferChunk G g c (Some r) = r \<and> (\<forall>cName. chunkName G g c = Some cName
            \<and> cName \<noteq> [] \<longrightarrow> nameLeq rn cName)"
        have "\<forall>x \<in> set (cs @ [c]). \<forall>xn. chunkName G g x = Some xn \<and> xn \<noteq> [] \<longrightarrow> nameLeq rn xn"
          using rmin a by auto
        then show ?thesis
          using a rn rin nm unfolding bestReusable_def by auto
      qed
    qed
    show ?thesis using f best by blast
  qed
qed

lemma matchingChunks_iff:
  "c \<in> set (matchingChunks G g item) \<longleftrightarrow>
     c \<in> set (chunks item)
     \<and> getNumberOfChunkModules G g c = length (modules item)
     \<and> getNumberOfEntryModules G g c = 0
     \<and> (\<forall>m \<in> set (modules item). isModuleInChunk G g m c)"
  by (auto simp: matchingChunks_def chunkMatches_def list_all_iff)

text \<open>
  Claim C4, as amended. When the cache group allows reuse, the chunks of the candidate
  are searched for those that have as many modules as the candidate, no entry module,
  and every module of the candidate. If there is none, nothing is reused and the
  candidate keeps its name. Otherwise the result is one of them, the candidate's name is
  cleared and \<open>isReused\<close> is set; if some matching chunk is named, the result is named and
  no matching chunk has a shorter name, or an equally long name that is smaller as a
  string; if no matching chunk is named, the result is the last one.
\<close>

theorem reuse_decision_spec:
  "(reuseExistingChunk (cacheGroup item) \<noteq> Some True \<or> matchingChunks G g item = []
      \<longrightarrow> reuseDecision G g item = (None, name item, False))
   \<and> (reuseExistingChunk (cacheGroup item) = Some True \<and> matchingChunks G g item \<noteq> []
      \<longrightarrow> (\<exists>r. reuseDecision G g item = (Some r, None, True)
               \<and> bestReusable G g (matchingChunks G g item) r))
   \<and> (\<forall>c. c \<in> set (matchingChunks G g item) \<longleftrightarrow>
          c \<in> set (chunks item)
          \<and> getNumberOfChunkModules G g c = length (modules item)
          \<and> getNumberOfEntryModules G g c = 0
          \<and> (\<forall>m \<in> set (modules item). isModuleInChunk G g m c))"
proof -
  have none: "matchingChunks G g item = [] \<Longrightarrow> findReusableChunk G g item = None"
    by (simp add: findReusableChunk_matching)
  have a: "reuseExistingChunk (cacheGroup item) \<noteq> Some True \<or> matchingChunks G g item = []
      \<longrightarrow> reuseDecision G g item = (None, name item, False)"
    using none by (auto simp: reuseDecision_def)
  have b: "reuseExistingChunk (cacheGroup item) = Some True \<and> matchingChunks G g item \<noteq> []
      \<longrightarrow> (\<exists>r. reuseDecision G g item = (Some r, None, True)
               \<and> bestReusable G g (matchingChunks G g item) r)"
  proof (intro impI, elim conjE)
    assume re: "reuseExistingChunk (cacheGroup item) = Some True"
      and ne: "matchingChunks G g item \<noteq> []"
    from fold_prefer_best [OF ne, of G g] obtain r where
      "findReusableChunk G g item = Some r" "bestReusable G g (matchingChunks G g item) r"
      unfolding findReusableChunk_matching by blast
    then show "\<exists>r. reuseDecision G g item = (Some r, None, True)
               \<and> bestReusable G g (matchingChunks G g item) r"
      using re by (simp add: reuseDecision_def)
  qed
  show ?thesis using a b matchingChunks_iff [of _ G g item] by blast
qed

theorem reuse_decision_spec_witness:
  "reuseExistingChunk (cacheGroup (reuseItem [2, 3, 4, 5])) = Some True
   \<and> matchingChunks simpleOps reuseGraph (reuseItem [2, 3, 4, 5]) = [2, 3, 4]
   \<and> reuseDecision simpleOps reuseGraph (reuseItem [2, 3, 4, 5]) = (Some 4, None, True)
   \<and> bestReusable simpleOps reuseGraph [2, 3, 4] 4"
proof -
  have re: "reuseExistingChunk (cacheGroup (reuseItem [2, 3, 4, 5])) = Some True"
    by (simp add: reuseItem_def)
  have m: "matchingChunks simpleOps reuseGraph (reuseItem [2, 3, 4, 5]) = [2, 3, 4]"
    by (simp add: matchingChunks_def chunkMatches_def example_simps)
  have d: "reuseDecision simpleOps reuseGraph (reuseItem [2, 3, 4, 5]) = (Some 4, None, True)"
    by (simp add: reuseDecision_def findReusableChunk_matching m preferChunk_def re)
       (simp add: example_simps)
  from reuse_decision_spec [of "reuseItem [2, 3, 4, 5]" simpleOps reuseGraph] re m d
  show ?thesis by auto
qed

theorem reuse_prefers_unnamed_counterexample:
  "reuseExistingChunk (cacheGroup (reuseItem [2, 3])) = Some True
   \<and> chunkMatches simpleOps reuseGraph (reuseItem [2, 3]) 2
   \<and> chunkName simpleOps reuseGraph 2 = None
   \<and> chunkMatches simpleOps reuseGraph (reuseItem [2, 3]) 3
   \<and> chunkName simpleOps reuseGraph 3 = Some ''ab''
   \<and> reuseDecision simpleOps reuseGraph (reuseItem [2, 3]) = (Some 3, None, True)"
  by (simp add: reuseDecision_def findReusableChunk_def preferChunk_def chunkMatches_def
      example_simps)

subsection \<open>The chunk-set indexer\<close>

lemma bucketsOf_step:
  assumes "bucketsOf bc seen"
  shows "bucketsOf (countStep (k, t) bc) (insert t seen)"
proof -
  have d: "distinct (map fst bc)"
    and sound: "\<And>count array x. map_of bc count = Some array \<Longrightarrow> x \<in> set array
        \<Longrightarrow> length x = count \<and> x \<in> seen"
    and complete: "\<And>x. x \<in> seen \<Longrightarrow> \<exists>array. map_of bc (length x) = Some array \<and> x \<in> set array"
    using assms unfolding bucketsOf_def by blast+
  show ?thesis
  proof (cases "map_of bc (length t)")
    case None
    then have fresh: "length t \<notin> fst ` set bc" by (simp add: map_of_eq_None_iff)
    have eq: "countStep (k, t) bc = bc @ [(length t, [t])]"
      using None by (simp add: countStep_def)
    have look: "\<And>c. map_of (bc @ [(length t, [t])]) c
        = (if c = length t then Some [t] else map_of bc c)"
      using None by (auto simp: map_add_def split: option.splits)
    have d': "distinct (map fst (bc @ [(length t, [t])]))" using d fresh by simp
    have s': "\<forall>count array. map_of (bc @ [(length t, [t])]) count = Some array \<longrightarrow>
           (\<forall>x \<in> set array. length x = count \<and> x \<in> insert t seen)"
    proof (intro allI impI ballI)
      fix count array x
      assume m: "map_of (bc @ [(length t, [t])]) count = Some array" and x: "x \<in> set array"
      show "length x = count \<and> x \<in> insert t seen"
      proof (cases "count = length t")
        case True
        with m x show ?thesis unfolding look by auto
      next
        case False
        with m have "map_of bc count = Some array" unfolding look by simp
        from sound [OF this x] show ?thesis by simp
      qed
    qed
    have c': "\<forall>x \<in> insert t seen.
        \<exists>array. map_of (bc @ [(length t, [t])]) (length x) = Some array \<and> x \<in> set array"
    proof
      fix x assume "x \<in> insert t seen"
      then consider "x = t" | "x \<in> seen" by blast
      then show "\<exists>array. map_of (bc @ [(length t, [t])]) (length x) = Some array \<and> x \<in> set array"
      proof cases
        case 1
        then show ?thesis unfolding look by simp
      next
        case 2
        from complete [OF 2] obtain array where
          a: "map_of bc (length x) = Some array" "x \<in> set array" by blast
        then have "length x \<noteq> length t" using None by auto
        with a show ?thesis unfolding look by simp
      qed
    qed
    show ?thesis unfolding eq bucketsOf_def using d' s' c' by blast
  next
    case (Some old)
    have eq: "countStep (k, t) bc = AList.update (length t) (old @ [t]) bc"
      using Some by (simp add: countStep_def)
    have look: "\<And>c. map_of (AList.update (length t) (old @ [t]) bc) c
        = (if c = length t then Some (old @ [t]) else map_of bc c)"
      by (simp add: update_conv')
    have d': "distinct (map fst (AList.update (length t) (old @ [t]) bc))"
      using d by (simp add: distinct_update)
    have s': "\<forall>count array. map_of (AList.update (length t) (old @ [t]) bc) count = Some array \<longrightarrow>
           (\<forall>x \<in> set array. length x = count \<and> x \<in> insert t seen)"
    proof (intro allI impI ballI)
      fix count array x
      assume m: "map_of (AList.update (length t) (old @ [t]) bc) count = Some array"
        and x: "x \<in> set array"
      show "length x = count \<and> x \<in> insert t seen"
      proof (cases "count = length t")
        case True
        with m have "array = old @ [t]" unfolding look by simp
        with x have "x \<in> set old \<or> x = t" by auto
        then show ?thesis using sound [OF Some] True by auto
      next
        case False
        with m have "map_of bc count = Some array" unfolding look by simp
        from sound [OF this x] show ?thesis by simp
      qed
    qed
    have c': "\<forall>x \<in> insert t seen.
        \<exists>array. map_of (AList.update (length t) (old @ [t]) bc) (length x) = Some array
          \<and> x \<in> set array"
    proof
      fix x assume "x \<in> insert t seen"
      then consider "x = t" | "x \<in> seen" by blast
      then show "\<exists>array. map_of (AList.update (length t) (old @ [t]) bc) (length x) = Some array
          \<and> x \<in> set array"
      proof cases
        case 1
        then show ?thesis unfolding look by simp
      next
        case 2
        from complete [OF 2] obtain array where
          a: "map_of bc (length x) = Some array" "x \<in> set array" by blast
        show ?thesis
        proof (cases "length x = length t")
          case True
          with a Some have "array = old" by simp
          with a True show ?thesis unfolding look by simp
        next
          case False
          with a show ?thesis unfolding look by simp
        qed
      qed
    qed
    show ?thesis unfolding eq bucketsOf_def using d' s' c' by blast
  qed
qed

lemma bucketsOf_fold:
  "bucketsOf bc seen \<Longrightarrow> bucketsOf (fold countStep reg bc) (seen \<union> snd ` set reg)"
proof (induction reg arbitrary: bc seen)
  case Nil
  then show ?case by simp
next
  case (Cons p reg)
  obtain k t where p: "p = (k, t)" by (cases p)
  from Cons.IH [OF bucketsOf_step [OF Cons.prems, of k t]]
  show ?case by (simp add: p Un_commute insert_commute)
qed

lemma bucketsOf_build: "bucketsOf (buildChunkSetsByCount reg) (snd ` set reg)"
proof -
  have "bucketsOf [] {}" by (simp add: bucketsOf_def)
  from bucketsOf_fold [OF this, of reg] show ?thesis
    by (simp add: buildChunkSetsByCount_def)
qed

lemma scanned_sets:
  assumes "bucketsOf bc seen"
  shows "set (concat (map (\<lambda>(count, setArray).
                            if count < n then filter P setArray else []) bc))
         = {t \<in> seen. length t < n \<and> P t}"
proof -
  have entry: "\<And>count array. (count, array) \<in> set bc \<longleftrightarrow> map_of bc count = Some array"
    using assms unfolding bucketsOf_def by simp
  have sound: "\<And>count array t. map_of bc count = Some array \<Longrightarrow> t \<in> set array
      \<Longrightarrow> length t = count \<and> t \<in> seen"
    using assms unfolding bucketsOf_def by blast
  have complete: "\<And>t. t \<in> seen \<Longrightarrow> \<exists>array. map_of bc (length t) = Some array \<and> t \<in> set array"
    using assms unfolding bucketsOf_def by blast
  show ?thesis
  proof (intro set_eqI iffI)
    fix t
    assume "t \<in> set (concat (map (\<lambda>(count, setArray).
                            if count < n then filter P setArray else []) bc))"
    then obtain count array where
      m: "(count, array) \<in> set bc" and c: "count < n" and t: "t \<in> set array" "P t"
      by (auto split: if_splits)
    from sound [of count array t] m t entry have "length t = count" "t \<in> seen" by auto
    with c t show "t \<in> {t \<in> seen. length t < n \<and> P t}" by simp
  next
    fix t
    assume "t \<in> {t \<in> seen. length t < n \<and> P t}"
    then have t: "t \<in> seen" "length t < n" "P t" by auto
    from complete [OF t(1)] obtain array where
      "map_of bc (length t) = Some array" "t \<in> set array" by blast
    then have "(length t, array) \<in> set bc" "t \<in> set array" using entry by auto
    with t show "t \<in> set (concat (map (\<lambda>(count, setArray).
                            if count < n then filter P setArray else []) bc))"
      by force
  qed
qed

lemma isSubset_iff: "isSubset bigSet smallSet \<longleftrightarrow> set smallSet \<subseteq> set bigSet"
  by (auto simp: isSubset_def list_all_iff)

text \<open>
  Claim C7, as amended. For a registered key whose chunk set \<open>owning\<close> has more than one
  chunk, the combinations are \<open>owning\<close> followed by exactly the registered sets with fewer
  chunks that are subsets of it; for a chunk set of at most one chunk they are \<open>owning\<close>
  alone. In both cases every set after the first has fewer chunks than \<open>owning\<close>.
\<close>

theorem getCombinations_spec:
  assumes "map_of chunkSetsInGraph k = Some owning"
  shows "\<exists>smaller.
           getCombinations chunkSetsInGraph (buildChunkSetsByCount chunkSetsInGraph) k
             = Inr (owning # smaller)
         \<and> (length owning > 1 \<longrightarrow>
               set smaller = {t \<in> snd ` set chunkSetsInGraph.
                                length t < length owning \<and> set t \<subseteq> set owning})
         \<and> (length owning \<le> 1 \<longrightarrow> smaller = [])
         \<and> (\<forall>t \<in> set smaller. length t < length owning)"
proof (cases "length owning > 1")
  case True
  let ?smaller = "concat (map (\<lambda>(count, setArray).
                                 if count < length owning
                                 then filter (isSubset owning) setArray
                                 else [])
                              (buildChunkSetsByCount chunkSetsInGraph))"
  have g: "getCombinations chunkSetsInGraph (buildChunkSetsByCount chunkSetsInGraph) k
             = Inr (owning # ?smaller)"
    using assms True by (simp add: getCombinations_def)
  have s: "set ?smaller = {t \<in> snd ` set chunkSetsInGraph.
                                length t < length owning \<and> set t \<subseteq> set owning}"
    using scanned_sets [OF bucketsOf_build, of "length owning" "isSubset owning" chunkSetsInGraph]
    by (simp add: isSubset_iff)
  have l: "\<forall>t \<in> set ?smaller. length t < length owning"
    unfolding s by blast
  show ?thesis using g s l True by auto
next
  case False
  then show ?thesis using assms by (simp add: getCombinations_def)
qed

theorem getCombinations_spec_witness:
  "buildChunkSetsInGraph simpleOps
      (indexerGraph [(2, [moduleA, moduleB]), (3, [moduleA, moduleC]), (4, [moduleC])])
      (buildIndexMap [2, 3, 4]) [moduleA, moduleB, moduleC]
     = [(''1,2'', [2, 3]), (''1'', [2]), (''2,3'', [3, 4])]
   \<and> map_of [(''1,2'', [2, 3]), (''1'', [2]), (''2,3'', [3, 4 :: chunk])] ''1,2'' = Some [2, 3]
   \<and> getCombinations [(''1,2'', [2, 3]), (''1'', [2]), (''2,3'', [3, 4])]
        (buildChunkSetsByCount [(''1,2'', [2, 3]), (''1'', [2]), (''2,3'', [3, 4])]) ''1,2''
       = Inr [[2, 3], [2]]"
proof -
  let ?reg = "[(''1,2'', [2, 3]), (''1'', [2]), (''2,3'', [3, 4 :: chunk])]"
  have b: "buildChunkSetsInGraph simpleOps
      (indexerGraph [(2, [moduleA, moduleB]), (3, [moduleA, moduleC]), (4, [moduleC])])
      (buildIndexMap [2, 3, 4]) [moduleA, moduleB, moduleC] = ?reg"
    by (simp add: buildChunkSetsInGraph_def buildIndexMap_def indexerGraph_def emptyGraph_def
        simpleOps_simps getKey_def List.map_filter_def newSet_def Let_def
        moduleA_def moduleB_def moduleC_def)
  have m: "map_of ?reg ''1,2'' = Some [2, 3]" by simp
  have g: "getCombinations ?reg (buildChunkSetsByCount ?reg) ''1,2'' = Inr [[2, 3], [2]]"
    by (simp add: getCombinations_def buildChunkSetsByCount_def countStep_def isSubset_def)
  from getCombinations_spec [OF m] b m g show ?thesis by simp
qed

theorem getCombinations_singleton_counterexample:
  "buildChunkSetsInGraph simpleOps (indexerGraph [(2, [moduleA])])
      (buildIndexMap [2]) [moduleA, moduleB]
     = [(''1'', [2]), ([], [])]
   \<and> getCombinations [(''1'', [2]), ([], [])]
        (buildChunkSetsByCount [(''1'', [2]), ([], [])]) ''1''
       = Inr [[2]]
   \<and> length ([] :: chunk list) < length [2 :: chunk]
   \<and> isSubset [2 :: chunk] []"
  by (simp add: buildChunkSetsInGraph_def buildIndexMap_def indexerGraph_def emptyGraph_def
        simpleOps_simps getKey_def List.map_filter_def newSet_def Let_def
        moduleA_def moduleB_def getCombinations_def isSubset_def)

subsection \<open>The retraction\<close>

lemma isOverlap_iff: "isOverlap a b \<longleftrightarrow> set a \<inter> set b \<noteq> {}"
  by (induction a) auto

lemma plainSet_lookup:
  "map_of (plainSet k v szs) t
     = (if k = t \<and> k \<noteq> ''__proto__'' then Some v else map_of szs t)"
  by (simp add: plainSet_def update_conv')

lemma plainGet_recorded: "map_of szs t = Some v \<Longrightarrow> plainGet szs t = Some v"
  by (simp add: plainGet_def)

lemma subtractSizes_lookup:
  assumes "t \<noteq> ''__proto__''" and "map_of szs t = Some (Num n)"
  shows "map_of (subtractSizes entries szs) t
     = Some (Num (n - (\<Sum>(type, moduleSize) \<leftarrow> entries. if type = t then moduleSize else 0)))"
  using assms(2)
proof (induction entries arbitrary: szs n)
  case Nil
  then show ?case by simp
next
  case (Cons e entries)
  obtain type moduleSize where e: "e = (type, moduleSize)" by (cases e)
  let ?szs = "plainSet type (minusNumber (plainGet szs type) moduleSize) szs"
  show ?case
  proof (cases "type = t")
    case True
    have "map_of ?szs t = Some (Num (n - moduleSize))"
      using Cons.prems assms(1) True
      by (simp add: plainSet_lookup plainGet_recorded)
    from Cons.IH [OF this] show ?thesis by (simp add: e True)
  next
    case False
    have "map_of ?szs t = Some (Num n)"
      using Cons.prems False by (simp add: plainSet_lookup)
    from Cons.IH [OF this] show ?thesis using False by (simp add: e)
  qed
qed

lemma removeTracked_fields:
  "removeTracked ms info u = (info', u') \<Longrightarrow>
     set (modules info') = set (modules info) - set ms
     \<and> cacheGroup info' = cacheGroup info \<and> chunks info' = chunks info
     \<and> validateSize info' = validateSize info \<and> name info' = name info
     \<and> (u' \<longleftrightarrow> u \<or> set ms \<inter> set (modules info) \<noteq> {})"
proof (induction ms arbitrary: info u)
  case Nil
  then show ?case by auto
next
  case (Cons m ms)
  show ?case
  proof (cases "m \<in> set (modules info)")
    case True
    let ?info = "info\<lparr> modules := removeAll m (modules info),
                       sizes := subtractSizes (sourceSizes m) (sizes info) \<rparr>"
    from Cons.prems True have "removeTracked ms ?info True = (info', u')" by simp
    from Cons.IH [OF this] True show ?thesis by auto
  next
    case False
    with Cons.prems have "removeTracked ms info u = (info', u')" by simp
    from Cons.IH [OF this] False show ?thesis by auto
  qed
qed

lemma removeTracked_sizes:
  assumes "t \<noteq> ''__proto__''" and "map_of (sizes info) t = Some (Num n)"
  shows "map_of (sizes (fst (removeTracked ms info u))) t
     = Some (Num (n - (\<Sum>m \<in> set ms \<inter> set (modules info). sizeUnder m t)))"
  using assms(2)
proof (induction ms arbitrary: info u n)
  case Nil
  then show ?case by simp
next
  case (Cons m ms)
  show ?case
  proof (cases "m \<in> set (modules info)")
    case True
    let ?info = "info\<lparr> modules := removeAll m (modules info),
                       sizes := subtractSizes (sourceSizes m) (sizes info) \<rparr>"
    let ?S = "set ms \<inter> (set (modules info) - {m})"
    have s1: "map_of (sizes ?info) t = Some (Num (n - sizeUnder m t))"
      using subtractSizes_lookup [OF assms(1) Cons.prems, of "sourceSizes m"]
      by (simp add: sizeUnder_def)
    have r: "removeTracked (m # ms) info u = removeTracked ms ?info True"
      using True by simp
    have ms: "set ms \<inter> set (modules ?info) = ?S" by auto
    have split: "set (m # ms) \<inter> set (modules info) = insert m ?S"
      using True by auto
    have "(\<Sum>m' \<in> insert m ?S. sizeUnder m' t) = sizeUnder m t + (\<Sum>m' \<in> ?S. sizeUnder m' t)"
      by (rule sum.insert) simp_all
    then have total: "(\<Sum>m' \<in> set (m # ms) \<inter> set (modules info). sizeUnder m' t)
        = sizeUnder m t + (\<Sum>m' \<in> ?S. sizeUnder m' t)"
      unfolding split .
    from Cons.IH [OF s1, of True] show ?thesis
      unfolding r ms total by simp
  next
    case False
    then have r: "removeTracked (m # ms) info u = removeTracked ms info u" by simp
    have "set (m # ms) \<inter> set (modules info) = set ms \<inter> set (modules info)"
      using False by auto
    with Cons.IH [OF Cons.prems, of u] show ?thesis unfolding r by simp
  qed
qed

lemma set_fold_removeAll: "set (fold removeAll ms xs) = set xs - set ms"
  by (induction ms arbitrary: xs) auto

lemma retractEntry_tracked:
  assumes "isOverlap (chunks info) (chunks item)" and "validateSize info"
    and "removeTracked (modules item) info False = (i, u)"
  shows "retractEntry item info
     = (if u \<and> (modules i = [] \<or> \<not> checkMinSize (sizes i) (minSize (cacheGroup i)))
        then None else Some i)"
  using assms by (simp add: retractEntry_def)

lemma retractEntry_Some:
  assumes "retractEntry item info = Some info'"
  shows "retracted item info info'"
proof (cases "isOverlap (chunks info) (chunks item)")
  case False
  with assms show ?thesis by (simp add: retractEntry_def retracted_def)
next
  case True
  show ?thesis
  proof (cases "validateSize info")
    case v: True
    obtain i u where r: "removeTracked (modules item) info False = (i, u)"
      by (cases "removeTracked (modules item) info False")
    from assms retractEntry_tracked [OF True v r] have i: "i = info'"
      and ok: "u \<longrightarrow> modules i \<noteq> [] \<and> checkMinSize (sizes i) (minSize (cacheGroup i))"
      by (auto split: if_splits)
    from removeTracked_fields [OF r] have
      res: "set (modules i) = set (modules info) - set (modules item)"
        "cacheGroup i = cacheGroup info" "chunks i = chunks info"
        "validateSize i = validateSize info" "name i = name info"
        "u \<longleftrightarrow> set (modules item) \<inter> set (modules info) \<noteq> {}"
      by simp_all
    have ne: "modules info \<noteq> [] \<longrightarrow> modules i \<noteq> []"
    proof (cases u)
      case True
      with ok show ?thesis by simp
    next
      case False
      with res have "set (modules i) = set (modules info)" by auto
      then show ?thesis by auto
    qed
    have ms: "validateSize info \<and> set (modules info) \<inter> set (modules item) \<noteq> {}
             \<longrightarrow> checkMinSize (sizes i) (minSize (cacheGroup info))"
      using ok res by (auto simp: Int_commute)
    have sz: "\<forall>t n. t \<noteq> ''__proto__'' \<and> map_of (sizes info) t = Some (Num n) \<longrightarrow>
                 map_of (sizes i) t = Some (Num (n - removedSize item info t))"
      using removeTracked_sizes [of _ info _ "modules item" False]
      unfolding r removedSize_def by simp
    show ?thesis
      unfolding retracted_def using True v res ne ms sz i by simp
  next
    case v: False
    from assms True v have
      i: "info' = info\<lparr> modules := fold removeAll (modules item) (modules info) \<rparr>"
      and ne: "fold removeAll (modules item) (modules info) \<noteq> []"
      by (auto simp: retractEntry_def Let_def split: if_splits)
    show ?thesis
      unfolding retracted_def using True v ne by (simp add: i set_fold_removeAll)
  qed
qed

lemma retractEntry_None:
  assumes "retractEntry item info = None"
  shows "isOverlap (chunks info) (chunks item)
     \<and> (set (modules info) \<subseteq> set (modules item)
        \<or> validateSize info \<and> set (modules info) \<inter> set (modules item) \<noteq> {})"
proof -
  have o: "isOverlap (chunks info) (chunks item)"
    using assms by (auto simp: retractEntry_def split: if_splits)
  show ?thesis
  proof (cases "validateSize info")
    case True
    obtain i u where r: "removeTracked (modules item) info False = (i, u)"
      by (cases "removeTracked (modules item) info False")
    from assms retractEntry_tracked [OF o True r] have u by (auto split: if_splits)
    with removeTracked_fields [OF r] have "set (modules info) \<inter> set (modules item) \<noteq> {}"
      by (auto simp: Int_commute)
    with o True show ?thesis by simp
  next
    case False
    from assms o False have "fold removeAll (modules item) (modules info) = []"
      by (auto simp: retractEntry_def Let_def split: if_splits)
    then have "set (modules info) - set (modules item) = {}"
      using set_fold_removeAll [of "modules item" "modules info"] by simp
    with o show ?thesis by blast
  qed
qed

lemma retractEntry_emptied:
  assumes "isOverlap (chunks info) (chunks item)"
    and "modules info \<noteq> []" and "set (modules info) \<subseteq> set (modules item)"
  shows "retractEntry item info = None"
proof (cases "retractEntry item info")
  case None
  then show ?thesis .
next
  case (Some info')
  then have "retracted item info info'" by (rule retractEntry_Some)
  with assms have "set (modules info') = {}" "modules info' \<noteq> []"
    unfolding retracted_def by auto
  then show ?thesis by simp
qed

lemma processEntry_cases:
  "processEntry G item st1 =
     (if skipped G (graph st1) item then Inr st1
      else if overBudget G (graph st1) item then
        (if int (length (inLimitOf G (graph st1) item)) \<ge> minChunks (cacheGroup item) then
           addModules G (cacheGroup item) (inLimitOf G (graph st1) item)
             (getKey (indexMap st1) (inLimitOf G (graph st1) item)) (modules item) st1
         else Inr st1)
      else
        (case materialize G item (chunkNameOf G (graph st1) item) (newChunkOf G (graph st1) item)
                (usedOf G (graph st1) item) (graph st1) of
           Inl e \<Rightarrow> Inl e
         | Inr (target, g') \<Rightarrow>
             Inr (st1\<lparr> graph := g',
                       maxSizeQueueMap :=
                         queueMaxSize (cacheGroup item) target (maxSizeQueueMap st1),
                       chunksInfoMap := retract item (chunksInfoMap st1) \<rparr>)))"
proof -
  obtain newChunk chunkNm isReused where
    r: "reuseDecision G (graph st1) item = (newChunk, chunkNm, isReused)"
    by (cases "reuseDecision G (graph st1) item") auto
  show ?thesis
    unfolding processEntry_def skipped_def overBudget_def inLimitOf_def usedOf_def
      newChunkOf_def chunkNameOf_def isReusedOf_def Let_def r
    by simp
qed

lemma retract_entries:
  "(\<forall>(k, info') \<in> set (retract item pending).
        \<exists>info. (k, info) \<in> set pending \<and> retractEntry item info = Some info')
     \<and> (\<forall>(k, info) \<in> set pending.
          retractEntry item info = None
          \<or> (\<exists>info'. retractEntry item info = Some info'
                \<and> (k, info') \<in> set (retract item pending)))"
proof (induction pending)
  case Nil
  show ?case by simp
next
  case (Cons p pending)
  obtain k info where p: "p = (k, info)" by (cases p)
  show ?case
  proof (cases "retractEntry item info")
    case None
    then have "retract item (p # pending) = retract item pending" by (simp add: p)
    with Cons.IH None show ?thesis by (auto simp: p)
  next
    case (Some info')
    then have e: "retract item (p # pending) = (k, info') # retract item pending"
      by (simp add: p)
    have a: "\<forall>(k, info') \<in> set (retract item (p # pending)).
        \<exists>info. (k, info) \<in> set (p # pending) \<and> retractEntry item info = Some info'"
      unfolding e using Cons.IH Some by (auto simp: p)
    have b: "\<forall>(k, info) \<in> set (p # pending).
          retractEntry item info = None
          \<or> (\<exists>info'. retractEntry item info = Some info'
                \<and> (k, info') \<in> set (retract item (p # pending)))"
      unfolding e using Cons.IH Some by (auto simp: p)
    show ?thesis using a b by blast
  qed
qed

text \<open>
  What the retraction does in general, for a materialized candidate \<open>item\<close> and a pending
  map with distinct keys: every candidate of the result comes from one of the old map
  under the same key, unchanged when its chunks do not overlap those of \<open>item\<close>, and
  otherwise without any module of \<open>item\<close>, not emptied, with every recorded number
  reduced by the sizes of the modules it lost, and, when it is tracked and lost a
  module, passing \<open>checkMinSize\<close> with these sizes. A candidate that overlaps and whose
  modules all belong to \<open>item\<close> is removed, and a candidate is removed only when it
  overlaps and either all its modules belong to \<open>item\<close> or it is tracked and lost a
  module. The result is the pending map after an iteration that materializes \<open>item\<close>.
\<close>

lemma retract_spec:
  assumes "distinct (map fst (chunksInfoMap st1))"
  shows "(\<forall>(k, info') \<in> set (retract item (chunksInfoMap st1)).
          \<exists>info. (k, info) \<in> set (chunksInfoMap st1) \<and> retracted item info info')
    \<and> (\<forall>(k, info') \<in> set (retract item (chunksInfoMap st1)).
          isOverlap (chunks info') (chunks item) \<longrightarrow> set (modules info') \<inter> set (modules item) = {})
    \<and> (\<forall>(k, info) \<in> set (chunksInfoMap st1).
          isOverlap (chunks info) (chunks item) \<and> modules info \<noteq> []
          \<and> set (modules info) \<subseteq> set (modules item)
          \<longrightarrow> k \<notin> fst ` set (retract item (chunksInfoMap st1)))
    \<and> (\<forall>(k, info) \<in> set (chunksInfoMap st1).
          k \<notin> fst ` set (retract item (chunksInfoMap st1)) \<longrightarrow>
            isOverlap (chunks info) (chunks item)
            \<and> (set (modules info) \<subseteq> set (modules item)
               \<or> validateSize info \<and> set (modules info) \<inter> set (modules item) \<noteq> {}))
    \<and> (\<forall>st'. materializes G (graph st1) item \<and> processEntry G item st1 = Inr st'
          \<longrightarrow> chunksInfoMap st' = retract item (chunksInfoMap st1))"
proof -
  let ?pending' = "retract item (chunksInfoMap st1)"
  note e = retract_entries [of item "chunksInfoMap st1"]
  have from_old: "\<And>k info'. (k, info') \<in> set ?pending' \<Longrightarrow>
      \<exists>info. (k, info) \<in> set (chunksInfoMap st1) \<and> retractEntry item info = Some info'"
    using e by blast
  have u: "\<And>k a b. (k, a) \<in> set (chunksInfoMap st1) \<Longrightarrow> (k, b) \<in> set (chunksInfoMap st1)
      \<Longrightarrow> a = b"
    using assms by (meson eq_key_imp_eq_value)
  have a: "\<forall>(k, info') \<in> set ?pending'.
          \<exists>info. (k, info) \<in> set (chunksInfoMap st1) \<and> retracted item info info'"
    using from_old retractEntry_Some by fast
  have b: "\<forall>(k, info') \<in> set ?pending'.
          isOverlap (chunks info') (chunks item) \<longrightarrow> set (modules info') \<inter> set (modules item) = {}"
  proof (clarify)
    fix k info'
    assume m: "(k, info') \<in> set ?pending'" and o: "isOverlap (chunks info') (chunks item)"
    from a m obtain info where i: "retracted item info info'" by blast
    show "set (modules info') \<inter> set (modules item) = {}"
    proof (cases "isOverlap (chunks info) (chunks item)")
      case True
      with i show ?thesis unfolding retracted_def by auto
    next
      case False
      with i have "info' = info" unfolding retracted_def by simp
      with o False show ?thesis by simp
    qed
  qed
  have c: "\<forall>(k, info) \<in> set (chunksInfoMap st1).
          isOverlap (chunks info) (chunks item) \<and> modules info \<noteq> []
          \<and> set (modules info) \<subseteq> set (modules item) \<longrightarrow> k \<notin> fst ` set ?pending'"
  proof -
    have "k \<notin> fst ` set ?pending'"
      if m: "(k, info) \<in> set (chunksInfoMap st1)"
        and o: "isOverlap (chunks info) (chunks item)" "modules info \<noteq> []"
          "set (modules info) \<subseteq> set (modules item)" for k info
    proof
      assume "k \<in> fst ` set ?pending'"
      then obtain info' where m': "(k, info') \<in> set ?pending'" by auto
      from from_old [OF m'] obtain old where
        old: "(k, old) \<in> set (chunksInfoMap st1)" "retractEntry item old = Some info'"
        by blast
      with m have "old = info" using u by auto
      with old retractEntry_emptied [OF o] show False by auto
    qed
    then show ?thesis by blast
  qed
  have d: "\<forall>(k, info) \<in> set (chunksInfoMap st1).
          k \<notin> fst ` set ?pending' \<longrightarrow>
            isOverlap (chunks info) (chunks item)
            \<and> (set (modules info) \<subseteq> set (modules item)
               \<or> validateSize info \<and> set (modules info) \<inter> set (modules item) \<noteq> {})"
  proof (clarify)
    fix k info
    assume m: "(k, info) \<in> set (chunksInfoMap st1)" and k: "k \<notin> fst ` set ?pending'"
    from e m have "retractEntry item info = None
          \<or> (\<exists>info'. retractEntry item info = Some info' \<and> (k, info') \<in> set ?pending')"
      by blast
    with k have "retractEntry item info = None" by force
    then show "isOverlap (chunks info) (chunks item)
            \<and> (set (modules info) \<subseteq> set (modules item)
               \<or> validateSize info \<and> set (modules info) \<inter> set (modules item) \<noteq> {})"
      by (rule retractEntry_None)
  qed
  have f: "\<forall>st'. materializes G (graph st1) item \<and> processEntry G item st1 = Inr st'
          \<longrightarrow> chunksInfoMap st' = ?pending'"
    unfolding materializes_def processEntry_cases
    by (auto split: sum.splits)
  show ?thesis using a b c d f by blast
qed

subsection \<open>The filename check\<close>

lemma addModule_no_Error: "addModuleToChunksInfoMap G cg cs ck m st \<noteq> Inl (Error msg)"
  by (auto simp: addModuleToChunksInfoMap_def Let_def split: option.splits)

lemma addModules_no_Error: "addModules G cg cs ck ms st \<noteq> Inl (Error msg)"
proof (induction ms arbitrary: st)
  case Nil
  show ?case by simp
next
  case (Cons m ms)
  show ?case
  proof (cases "addModuleToChunksInfoMap G cg cs ck m st")
    case (Inl e)
    with addModule_no_Error [of G cg cs ck m st msg] show ?thesis by auto
  next
    case (Inr st')
    with Cons.IH [of st'] show ?thesis by simp
  qed
qed

lemma setFilename_cases:
  "setFilename G cg c g =
     (if truthy (filename cg) \<and> \<not> isOnlyInitial G g c
      then Inl (Error (filenameErrorMessage (key cg)))
      else Inr (case filename cg of
                  None \<Rightarrow> g
                | Some f \<Rightarrow> if f = [] then g else setFilenameTemplate G c f g))"
  by (cases "filename cg") (auto simp: setFilename_def)

lemma materialize_Error:
  "materialize G item chunkNm reused usedChunks g = Inl e \<longleftrightarrow>
     truthy (filename (cacheGroup item))
     \<and> \<not> isOnlyInitial G (snd (prepareTarget G item chunkNm reused usedChunks g))
           (fst (prepareTarget G item chunkNm reused usedChunks g))
     \<and> e = Error (filenameErrorMessage (key (cacheGroup item)))"
proof -
  obtain c g4 where p: "prepareTarget G item chunkNm reused usedChunks g = (c, g4)"
    by (cases "prepareTarget G item chunkNm reused usedChunks g") auto
  show ?thesis
    unfolding materialize_def Let_def p setFilename_cases
    by auto
qed

text \<open>
  Claim C8. Let the scan choose the candidate \<open>item\<close>. The iteration ends in the thrown
  \<^verbatim>\<open>Error\<close> exactly when the candidate is materialized, its cache group has a filename, and
  the target chunk is not only initial when the check is reached; the message is then
  the fixed text ending in \<open>(cache group: key)\<close> with the key of that cache group. In
  particular no such error is thrown when the target chunk is only initial.
\<close>


theorem filename_error_spec:
  assumes "findBestEntry (chunksInfoMap st) = Some (k, item)"
  shows "(loopBody G st = Inl (Error msg) \<longleftrightarrow>
            materializes G (graph st) item
            \<and> truthy (filename (cacheGroup item))
            \<and> \<not> isOnlyInitial G (snd (targetOf G (graph st) item)) (fst (targetOf G (graph st) item))
            \<and> msg = filenameErrorMessage (key (cacheGroup item)))
       \<and> (\<exists>text. filenameErrorMessage (key (cacheGroup item))
                    = text @ ''(cache group: '' @ key (cacheGroup item) @ '')'')"
proof -
  let ?st1 = "st\<lparr> chunksInfoMap := AList.delete k (chunksInfoMap st) \<rparr>"
  have l: "loopBody G st = processEntry G item ?st1"
    using assms by (simp add: loopBody_def)
  have g: "graph ?st1 = graph st" by simp
  have m: "filenameErrorMessage (key (cacheGroup item))
      = (''SplitChunksPlugin: You are trying to set a filename for a chunk which is (also) loaded on demand. ''
         @ ''The runtime can only handle loading of chunks which match the chunkFilename schema. ''
         @ ''Using a custom filename would fail at runtime. '')
        @ ''(cache group: '' @ key (cacheGroup item) @ '')''"
    unfolding filenameErrorMessage_def by simp
  have e: "\<exists>text. filenameErrorMessage (key (cacheGroup item))
                    = text @ ''(cache group: '' @ key (cacheGroup item) @ '')''"
    using m by blast
  have main: "processEntry G item ?st1 = Inl (Error msg) \<longleftrightarrow>
            materializes G (graph st) item
            \<and> truthy (filename (cacheGroup item))
            \<and> \<not> isOnlyInitial G (snd (targetOf G (graph st) item)) (fst (targetOf G (graph st) item))
            \<and> msg = filenameErrorMessage (key (cacheGroup item))"
  proof (cases "materializes G (graph st) item")
    case False
    then have "processEntry G item ?st1 \<noteq> Inl (Error msg)"
      unfolding processEntry_cases g materializes_def
      by (auto simp: addModules_no_Error)
    with False show ?thesis by simp
  next
    case True
    let ?mat = "materialize G item (chunkNameOf G (graph st) item) (newChunkOf G (graph st) item)
                (usedOf G (graph st) item) (graph st)"
    have p: "processEntry G item ?st1 =
        (case ?mat of
           Inl e \<Rightarrow> Inl e
         | Inr (target, g') \<Rightarrow>
             Inr (?st1\<lparr> graph := g',
                       maxSizeQueueMap :=
                         queueMaxSize (cacheGroup item) target (maxSizeQueueMap ?st1),
                       chunksInfoMap := retract item (chunksInfoMap ?st1) \<rparr>))"
      using True unfolding processEntry_cases g materializes_def by simp
    show ?thesis
    proof (cases ?mat)
      case (Inl e)
      with p have "processEntry G item ?st1 = Inl e" by simp
      with Inl True show ?thesis
        using materialize_Error [of G item "chunkNameOf G (graph st) item"
            "newChunkOf G (graph st) item" "usedOf G (graph st) item" "graph st" e]
        unfolding targetOf_def by auto
    next
      case (Inr r)
      obtain target g' where r: "r = (target, g')" by (cases r)
      have "processEntry G item ?st1 \<noteq> Inl (Error msg)"
        unfolding p Inr r by simp
      moreover have "\<not> (truthy (filename (cacheGroup item))
            \<and> \<not> isOnlyInitial G (snd (targetOf G (graph st) item))
                  (fst (targetOf G (graph st) item)))"
        using Inr materialize_Error [of G item "chunkNameOf G (graph st) item"
            "newChunkOf G (graph st) item" "usedOf G (graph st) item" "graph st"
            "Error (filenameErrorMessage (key (cacheGroup item)))"]
        unfolding targetOf_def by auto
      ultimately show ?thesis by blast
    qed
  qed
  show ?thesis using l main e by simp
qed

lemmas path_defs =
  materializes_def skipped_def overBudget_def inLimitOf_def usedOf_def newChunkOf_def
  chunkNameOf_def isReusedOf_def targetOf_def reuseDecision_def usedChunksOf_def
  chunksInLimitOf_def maxRequestsOf_def getRequests_def prepareTarget_def

theorem filename_error_spec_witness:
  "findBestEntry (chunksInfoMap (filenamePass False)) = Some (''vendors chunks:1,2'', filenameItem)
   \<and> materializes simpleOps (graph (filenamePass False)) filenameItem
   \<and> fst (targetOf simpleOps (graph (filenamePass False)) filenameItem) = 4
   \<and> \<not> isOnlyInitial simpleOps (snd (targetOf simpleOps (graph (filenamePass False)) filenameItem)) 4
   \<and> loopBody simpleOps (filenamePass False) = Inl (Error (filenameErrorMessage ''vendors''))
   \<and> isOnlyInitial simpleOps (snd (targetOf simpleOps (graph (filenamePass True)) filenameItem)) 4
   \<and> loopBody simpleOps (filenamePass True) \<noteq> Inl (Error (filenameErrorMessage ''vendors''))"
proof -
  have f: "\<And>b. findBestEntry (chunksInfoMap (filenamePass b))
      = Some (''vendors chunks:1,2'', filenameItem)"
    by (simp add: filenamePass_def findBestEntry_def bestStep_def)
  have k: "key (cacheGroup filenameItem) = ''vendors''"
    "truthy (filename (cacheGroup filenameItem))"
    by (simp_all add: filenameItem_def exampleGroup_def createCacheGroup_def exampleSource_def)
  have m: "\<And>b. materializes simpleOps (graph (filenamePass b)) filenameItem"
    by (simp add: path_defs filenamePass_def filenameGraph_def filenameItem_def exampleInfo_def
        exampleGroup_def createCacheGroup_def exampleSource_def emptyGraph_def
        simpleOps_simps sgGroupsOf_def)
  have t: "\<And>b. fst (targetOf simpleOps (graph (filenamePass b)) filenameItem) = 4"
    by (simp add: path_defs filenamePass_def filenameGraph_def filenameItem_def exampleInfo_def
        exampleGroup_def createCacheGroup_def exampleSource_def emptyGraph_def
        simpleOps_simps sgAddChunk_def Let_def)
  have o: "\<And>b. isOnlyInitial simpleOps (snd (targetOf simpleOps (graph (filenamePass b)) filenameItem)) 4
      = b"
    by (simp add: path_defs filenamePass_def filenameGraph_def filenameItem_def exampleInfo_def
        exampleGroup_def createCacheGroup_def exampleSource_def emptyGraph_def
        simpleOps_simps sgAddChunk_def sgSplit_def sgGroupsOf_def Let_def
        removeEntrypointNamed_def)
  from filename_error_spec [OF f [of False], of simpleOps "filenameErrorMessage ''vendors''"]
    filename_error_spec [OF f [of True], of simpleOps "filenameErrorMessage ''vendors''"]
  show ?thesis using f m t o k by simp
qed

subsection \<open>The retraction in an iteration\<close>

lemma retract_example:
  "retract retractItem retractPending
     = [(''a'', exampleInfo [moduleB] [2, 3]),
        (''c'', trackedInfo [(''javascript'', 50)] [moduleB] [2, 5] [(''javascript'', Num 60)]),
        (''e'', exampleInfo [moduleA] [6, 7]),
        (''f'', trackedInfo [(''toString'', 1)] [moduleB] [2, 5] [(''javascript'', Num 60)])]"
  by (simp add: retractPending_def retractItem_def retractEntry_def exampleInfo_def
      trackedInfo_def moduleA_def moduleB_def moduleC_def plainGet_def plainSet_def
      objectPrototypeKeys_def exampleGroup_def Let_def)

lemma retractPass_best:
  "findBestEntry (chunksInfoMap retractPass) = Some (''item'', retractItem)"
  "AList.delete ''item'' (chunksInfoMap retractPass) = retractPending"
  by (simp_all add: retractPass_def retractPending_def retractItem_def findBestEntry_def
      bestStep_def compareEntries_def exampleInfo_def trackedInfo_def Let_def totalSize_def
      exampleGroup_def createCacheGroup_def exampleSource_def)

lemma retractPass_materializes:
  "materializes simpleOps (graph retractPass) retractItem"
  "filename (cacheGroup retractItem) = None"
  by (simp_all add: path_defs retractPass_def filenameGraph_def retractItem_def exampleInfo_def
        exampleGroup_def createCacheGroup_def exampleSource_def emptyGraph_def emptyPass_def
        simpleOps_simps sgGroupsOf_def exampleOptions_def)

text \<open>
  Claim C3. In the pass \<open>retractPass\<close> the loop chooses and materializes the candidate
  \<open>item\<close>, with the modules \<open>a.js\<close> and \<open>c.js\<close> on the chunks \<open>2\<close> and \<open>3\<close>, and the
  retraction of lines 877-914 leaves the pending map below. The candidates \<open>a\<close>, \<open>c\<close>
  and \<open>f\<close> lose \<open>a.js\<close>, the tracked ones with its size subtracted; \<open>b\<close> is emptied
  and removed; \<open>d\<close> is removed because its updated size \<open>60\<close> is below its threshold
  \<open>70\<close>; \<open>e\<close> does not overlap and stays as it is. The candidate \<open>f\<close> stays in the map
  although its updated sizes \<^verbatim>\<open>{javascript: 60}\<close> do not satisfy its threshold
  \<^verbatim>\<open>{toString: 1}\<close>: the key is missing from the size map, and the check of line 900 reads
  the function that \<^verbatim>\<open>Object.prototype\<close> has under it.
\<close>

theorem retraction_keeps_unsatisfied:
  "(\<exists>st'. loopBody simpleOps retractPass = Inr st'
      \<and> chunksInfoMap st'
          = [(''a'', exampleInfo [moduleB] [2, 3]),
             (''c'', trackedInfo [(''javascript'', 50)] [moduleB] [2, 5]
                       [(''javascript'', Num 60)]),
             (''e'', exampleInfo [moduleA] [6, 7]),
             (''f'', trackedInfo [(''toString'', 1)] [moduleB] [2, 5]
                       [(''javascript'', Num 60)])])
   \<and> \<not> satisfiesMinSize [(''javascript'', Num 60)] [(''toString'', 1)]"
proof -
  let ?st1 = "retractPass\<lparr> chunksInfoMap := retractPending \<rparr>"
  have l: "loopBody simpleOps retractPass = processEntry simpleOps retractItem ?st1"
    by (simp add: loopBody_def retractPass_best)
  have g: "graph ?st1 = graph retractPass" by simp
  have m: "materializes simpleOps (graph ?st1) retractItem"
    unfolding g by (rule retractPass_materializes)
  let ?mat = "materialize simpleOps retractItem (chunkNameOf simpleOps (graph ?st1) retractItem)
      (newChunkOf simpleOps (graph ?st1) retractItem) (usedOf simpleOps (graph ?st1) retractItem)
      (graph ?st1)"
  have "\<And>e. ?mat \<noteq> Inl e"
    unfolding materialize_Error by (simp add: retractPass_materializes(2))
  then obtain target g' where mat: "?mat = Inr (target, g')"
    by (cases ?mat) auto
  have p: "processEntry simpleOps retractItem ?st1
      = Inr (?st1\<lparr> graph := g',
                  maxSizeQueueMap :=
                    queueMaxSize (cacheGroup retractItem) target (maxSizeQueueMap ?st1),
                  chunksInfoMap := retract retractItem (chunksInfoMap ?st1) \<rparr>)"
    using m unfolding processEntry_cases materializes_def mat by simp
  have e: "\<exists>st'. loopBody simpleOps retractPass = Inr st'
      \<and> chunksInfoMap st'
          = [(''a'', exampleInfo [moduleB] [2, 3]),
             (''c'', trackedInfo [(''javascript'', 50)] [moduleB] [2, 5]
                       [(''javascript'', Num 60)]),
             (''e'', exampleInfo [moduleA] [6, 7]),
             (''f'', trackedInfo [(''toString'', 1)] [moduleB] [2, 5]
                       [(''javascript'', Num 60)])]"
    unfolding l p by (simp add: retract_example)
  have n: "\<not> satisfiesMinSize [(''javascript'', Num 60)] [(''toString'', 1)]"
    by (simp add: satisfiesMinSize_def)
  show ?thesis using e n by (rule conjI)
qed

subsection \<open>The request budget\<close>

lemma set_fold_setAdd: "set (fold setAdd xs ys) = set ys \<union> set xs"
  by (induction xs arbitrary: ys) (auto simp: setAdd_def)

lemma addToInfo_fields:
  "name (addToInfo m cs ck i) = name i" "cacheGroup (addToInfo m cs ck i) = cacheGroup i"
  "set (chunksKeys (addToInfo m cs ck i)) = insert ck (set (chunksKeys i))"
  unfolding addToInfo_def Let_def by auto


lemma addToInfo_modules: "set (modules (addToInfo m cs ck i)) = insert m (set (modules i))"
  unfolding addToInfo_def Let_def by (auto simp: setAdd_def)

lemma addToInfo_key: "ck \<in> set (chunksKeys (addToInfo m cs ck i))"
  unfolding addToInfo_def Let_def by auto

lemma addToInfo_chunks:
  "set (chunks (addToInfo m cs ck i))
     = (if ck \<in> set (chunksKeys i) then set (chunks i) else set (chunks i) \<union> set cs)"
  unfolding addToInfo_def Let_def by (auto simp: set_fold_setAdd)

lemma addModule_step:
  assumes "addModuleToChunksInfoMap G cg cs ck m st = Inr st'"
    and "getName cg = Some f" and "\<not> int (length cs) < minChunks cg"
  shows "graph st' = graph st \<and> maxSizeQueueMap st' = maxSizeQueueMap st
       \<and> indexMap st' = indexMap st
       \<and> map_of (chunksInfoMap st') (infoKey cg (f m cs (key cg)) ck)
           = Some (addToInfo m cs ck
                (case map_of (chunksInfoMap st) (infoKey cg (f m cs (key cg)) ck) of
                   Some info \<Rightarrow> info | None \<Rightarrow> newInfo cg (f m cs (key cg))))
       \<and> (\<forall>K. K \<noteq> infoKey cg (f m cs (key cg)) ck
              \<longrightarrow> map_of (chunksInfoMap st') K = map_of (chunksInfoMap st) K)"
  using assms unfolding addModuleToChunksInfoMap_def Let_def
  by (auto simp: update_conv' validateName_def)

lemma addModule_graph:
  assumes "addModuleToChunksInfoMap G cg cs ck m st = Inr st'"
  shows "graph st' = graph st \<and> maxSizeQueueMap st' = maxSizeQueueMap st
       \<and> indexMap st' = indexMap st"
  using assms unfolding addModuleToChunksInfoMap_def Let_def
  by (auto simp: validateName_def split: if_splits option.splits)

lemma addModules_graph:
  "addModules G cg cs ck ms st = Inr st' \<Longrightarrow>
     graph st' = graph st \<and> maxSizeQueueMap st' = maxSizeQueueMap st
     \<and> indexMap st' = indexMap st"
proof (induction ms arbitrary: st)
  case Nil
  then show ?case by simp
next
  case (Cons m ms)
  from Cons.prems obtain st1 where
    a: "addModuleToChunksInfoMap G cg cs ck m st = Inr st1" and
    b: "addModules G cg cs ck ms st1 = Inr st'"
    by (auto split: sum.splits)
  from addModule_graph [OF a] Cons.IH [OF b] show ?case by simp
qed

lemma requeuedUnder_Cons:
  "requeuedUnder cg f cs ck (m # ms) K
     = (if infoKey cg (f m cs (key cg)) ck = K then insert m (requeuedUnder cg f cs ck ms K)
        else requeuedUnder cg f cs ck ms K)"
  by (auto simp: requeuedUnder_def)

lemma addModules_requeued:
  assumes "getName cg = Some f" and "\<not> int (length cs) < minChunks cg"
  shows "addModules G cg cs ck ms st = Inr st' \<Longrightarrow>
         requeued cg f cs ck ms (chunksInfoMap st) (chunksInfoMap st')"
proof (induction ms arbitrary: st)
  case Nil
  then have e: "st' = st" by simp
  show ?case
    unfolding requeued_def e
  proof
    fix K
    show "case map_of (chunksInfoMap st) K of
            Some i \<Rightarrow>
              (\<exists>i'. map_of (chunksInfoMap st) K = Some i'
                 \<and> name i' = name i \<and> cacheGroup i' = cacheGroup i
                 \<and> set (modules i') = set (modules i) \<union> requeuedUnder cg f cs ck [] K
                 \<and> set (chunks i) \<subseteq> set (chunks i')
                 \<and> set (chunks i') \<subseteq> set (chunks i) \<union> set cs
                 \<and> set (chunksKeys i) \<subseteq> set (chunksKeys i')
                 \<and> (requeuedUnder cg f cs ck [] K \<noteq> {} \<longrightarrow> ck \<in> set (chunksKeys i')))
          | None \<Rightarrow>
              (case map_of (chunksInfoMap st) K of
                 None \<Rightarrow> requeuedUnder cg f cs ck [] K = {}
               | Some i' \<Rightarrow>
                   cacheGroup i' = cg \<and> set (chunks i') = set cs \<and> ck \<in> set (chunksKeys i')
                   \<and> (\<exists>m \<in> requeuedUnder cg f cs ck [] K. name i' = f m cs (key cg))
                   \<and> set (modules i') = requeuedUnder cg f cs ck [] K)"
      by (cases "map_of (chunksInfoMap st) K") (simp_all add: requeuedUnder_def)
  qed
next
  case (Cons m ms)
  let ?Km = "infoKey cg (f m cs (key cg)) ck"
  let ?U = "\<lambda>K. requeuedUnder cg f cs ck ms K"
  from Cons.prems obtain st1 where
    a: "addModuleToChunksInfoMap G cg cs ck m st = Inr st1" and
    b: "addModules G cg cs ck ms st1 = Inr st'"
    by (auto split: sum.splits)
  define i0 where "i0 = (case map_of (chunksInfoMap st) ?Km of
                   Some info \<Rightarrow> info | None \<Rightarrow> newInfo cg (f m cs (key cg)))"
  define j where "j = addToInfo m cs ck i0"
  from addModule_step [OF a assms] have
    at: "map_of (chunksInfoMap st1) ?Km = Some j" and
    other: "\<And>K. K \<noteq> ?Km \<Longrightarrow> map_of (chunksInfoMap st1) K = map_of (chunksInfoMap st) K"
    unfolding j_def i0_def by blast+
  have ih: "requeued cg f cs ck ms (chunksInfoMap st1) (chunksInfoMap st')"
    by (rule Cons.IH [OF b])
  show ?case
    unfolding requeued_def
  proof
    fix K
    show "case map_of (chunksInfoMap st) K of
            Some i \<Rightarrow>
              (\<exists>i'. map_of (chunksInfoMap st') K = Some i'
                 \<and> name i' = name i \<and> cacheGroup i' = cacheGroup i
                 \<and> set (modules i') = set (modules i) \<union> requeuedUnder cg f cs ck (m # ms) K
                 \<and> set (chunks i) \<subseteq> set (chunks i')
                 \<and> set (chunks i') \<subseteq> set (chunks i) \<union> set cs
                 \<and> set (chunksKeys i) \<subseteq> set (chunksKeys i')
                 \<and> (requeuedUnder cg f cs ck (m # ms) K \<noteq> {} \<longrightarrow> ck \<in> set (chunksKeys i')))
          | None \<Rightarrow>
              (case map_of (chunksInfoMap st') K of
                 None \<Rightarrow> requeuedUnder cg f cs ck (m # ms) K = {}
               | Some i' \<Rightarrow>
                   cacheGroup i' = cg \<and> set (chunks i') = set cs \<and> ck \<in> set (chunksKeys i')
                   \<and> (\<exists>m' \<in> requeuedUnder cg f cs ck (m # ms) K. name i' = f m' cs (key cg))
                   \<and> set (modules i') = requeuedUnder cg f cs ck (m # ms) K)"
    proof (cases "K = ?Km")
      case False
      have u: "requeuedUnder cg f cs ck (m # ms) K = ?U K"
        using False by (simp add: requeuedUnder_Cons)
      from ih have "case map_of (chunksInfoMap st1) K of
            Some i \<Rightarrow>
              (\<exists>i'. map_of (chunksInfoMap st') K = Some i'
                 \<and> name i' = name i \<and> cacheGroup i' = cacheGroup i
                 \<and> set (modules i') = set (modules i) \<union> ?U K
                 \<and> set (chunks i) \<subseteq> set (chunks i')
                 \<and> set (chunks i') \<subseteq> set (chunks i) \<union> set cs
                 \<and> set (chunksKeys i) \<subseteq> set (chunksKeys i')
                 \<and> (?U K \<noteq> {} \<longrightarrow> ck \<in> set (chunksKeys i')))
          | None \<Rightarrow>
              (case map_of (chunksInfoMap st') K of
                 None \<Rightarrow> ?U K = {}
               | Some i' \<Rightarrow>
                   cacheGroup i' = cg \<and> set (chunks i') = set cs \<and> ck \<in> set (chunksKeys i')
                   \<and> (\<exists>m' \<in> ?U K. name i' = f m' cs (key cg))
                   \<and> set (modules i') = ?U K)"
        unfolding requeued_def by (rule spec)
      then show ?thesis unfolding u other [OF False] .
    next
      case True
      have u: "requeuedUnder cg f cs ck (m # ms) K = insert m (?U K)"
        using True by (simp add: requeuedUnder_Cons)
      from ih have "case map_of (chunksInfoMap st1) K of
            Some i \<Rightarrow>
              (\<exists>i'. map_of (chunksInfoMap st') K = Some i'
                 \<and> name i' = name i \<and> cacheGroup i' = cacheGroup i
                 \<and> set (modules i') = set (modules i) \<union> ?U K
                 \<and> set (chunks i) \<subseteq> set (chunks i')
                 \<and> set (chunks i') \<subseteq> set (chunks i) \<union> set cs
                 \<and> set (chunksKeys i) \<subseteq> set (chunksKeys i')
                 \<and> (?U K \<noteq> {} \<longrightarrow> ck \<in> set (chunksKeys i')))
          | None \<Rightarrow>
              (case map_of (chunksInfoMap st') K of
                 None \<Rightarrow> ?U K = {}
               | Some i' \<Rightarrow>
                   cacheGroup i' = cg \<and> set (chunks i') = set cs \<and> ck \<in> set (chunksKeys i')
                   \<and> (\<exists>m' \<in> ?U K. name i' = f m' cs (key cg))
                   \<and> set (modules i') = ?U K)"
        unfolding requeued_def by (rule spec)
      moreover have "map_of (chunksInfoMap st1) K = Some j" using at True by simp
      ultimately have "\<exists>i'. map_of (chunksInfoMap st') K = Some i'
                 \<and> name i' = name j \<and> cacheGroup i' = cacheGroup j
                 \<and> set (modules i') = set (modules j) \<union> ?U K
                 \<and> set (chunks j) \<subseteq> set (chunks i')
                 \<and> set (chunks i') \<subseteq> set (chunks j) \<union> set cs
                 \<and> set (chunksKeys j) \<subseteq> set (chunksKeys i')
                 \<and> (?U K \<noteq> {} \<longrightarrow> ck \<in> set (chunksKeys i'))"
        by simp
      then obtain i' where
        i': "map_of (chunksInfoMap st') K = Some i'"
        and n: "name i' = name j" "cacheGroup i' = cacheGroup j"
        and md: "set (modules i') = set (modules j) \<union> ?U K"
        and c1: "set (chunks j) \<subseteq> set (chunks i')"
        and c2: "set (chunks i') \<subseteq> set (chunks j) \<union> set cs"
        and ks: "set (chunksKeys j) \<subseteq> set (chunksKeys i')"
        by blast
      have jm: "set (modules j) = insert m (set (modules i0))"
        and jk: "set (chunksKeys j) = insert ck (set (chunksKeys i0))"
        and jn: "name j = name i0" "cacheGroup j = cacheGroup i0"
        and jc: "set (chunks j)
              = (if ck \<in> set (chunksKeys i0) then set (chunks i0) else set (chunks i0) \<union> set cs)"
        unfolding j_def by (simp_all add: addToInfo_modules addToInfo_fields addToInfo_chunks)
      show ?thesis
      proof (cases "map_of (chunksInfoMap st) K")
        case (Some i)
        then have i0: "i0 = i" unfolding i0_def using True by simp
        have "set (chunks i) \<subseteq> set (chunks i')" "set (chunks i') \<subseteq> set (chunks i) \<union> set cs"
          using c1 c2 jc i0 by (auto split: if_splits)
        moreover have "set (modules i') = set (modules i) \<union> insert m (?U K)"
          using md jm i0 by auto
        moreover have "set (chunksKeys i) \<subseteq> set (chunksKeys i')" "ck \<in> set (chunksKeys i')"
          using ks jk i0 by auto
        ultimately show ?thesis
          unfolding Some u using i' n jn i0 by simp
      next
        case None
        then have i0: "i0 = newInfo cg (f m cs (key cg))" unfolding i0_def using True by simp
        have "set (chunks i') = set cs"
          using c1 c2 jc i0 by (auto simp: newInfo_def)
        moreover have "set (modules i') = insert m (?U K)"
          using md jm i0 by (auto simp: newInfo_def)
        moreover have "ck \<in> set (chunksKeys i')" using ks jk by auto
        moreover have "name i' = f m cs (key cg)" "cacheGroup i' = cg"
          using n jn i0 by (simp_all add: newInfo_def)
        ultimately show ?thesis
          unfolding None u using i' by simp
      qed
    qed
  qed
qed

lemma not_reused_newChunk: "\<not> isReusedOf G g item \<Longrightarrow> newChunkOf G g item = None"
  unfolding isReusedOf_def newChunkOf_def reuseDecision_def
  by (auto split: if_splits option.splits)

text \<open>
  Claim C5, as amended. Let the scan choose \<open>item\<close>, let no chunk be reused, and let the
  request budget leave fewer chunks \<open>cs\<close> than were used. Then nothing is materialized:
  the graph and the queued size constraints stay as they were. When \<open>cs\<close> has fewer chunks
  than the cache group's \<open>minChunks\<close>, the candidate is dropped: the iteration ends with
  the pending map from which it was deleted. Otherwise every module of the candidate is
  handed back to \<open>addModuleToChunksInfoMap\<close> with \<open>cs\<close> and its key; by \<open>requeued\<close>, the
  pending map then holds each module under the key made of the cache group's key and the
  name \<open>getName\<close> returns for it (the name is computed again, not cleared), in a new
  candidate spanning exactly \<open>cs\<close> when the key was free, and merged into the candidate
  already under that key otherwise.
\<close>


theorem budget_requeue_spec:
  assumes "findBestEntry (chunksInfoMap st) = Some (k, item)"
    and "\<not> isReusedOf G (graph st) item"
    and "overBudget G (graph st) item"
    and "st1 = st\<lparr> chunksInfoMap := AList.delete k (chunksInfoMap st) \<rparr>"
    and "cs = inLimitOf G (graph st) item"
    and "ck = getKey (indexMap st) cs"
  shows "set cs \<subseteq> set (usedOf G (graph st) item)
    \<and> length cs < length (usedOf G (graph st) item)
    \<and> (int (length cs) < minChunks (cacheGroup item) \<longrightarrow> loopBody G st = Inr st1)
    \<and> (minChunks (cacheGroup item) \<le> int (length cs) \<longrightarrow>
          loopBody G st = addModules G (cacheGroup item) cs ck (modules item) st1)
    \<and> (\<forall>st'. loopBody G st = Inr st' \<longrightarrow>
          graph st' = graph st \<and> maxSizeQueueMap st' = maxSizeQueueMap st
          \<and> (minChunks (cacheGroup item) \<le> int (length cs) \<longrightarrow>
               (\<forall>f. getName (cacheGroup item) = Some f \<longrightarrow>
                  requeued (cacheGroup item) f cs ck (modules item)
                    (chunksInfoMap st1) (chunksInfoMap st'))))"
proof -
  let ?cg = "cacheGroup item"
  have g: "graph st1 = graph st" "indexMap st1 = indexMap st"
    "maxSizeQueueMap st1 = maxSizeQueueMap st"
    by (simp_all add: assms(4))
  have l: "loopBody G st = processEntry G item st1"
    using assms(1) by (simp add: loopBody_def assms(4))
  have ns: "\<not> skipped G (graph st) item"
    using assms(3) unfolding overBudget_def skipped_def by auto
  have p: "processEntry G item st1 =
      (if minChunks ?cg \<le> int (length cs) then addModules G ?cg cs ck (modules item) st1
       else Inr st1)"
    unfolding processEntry_cases g using ns assms(3) by (simp add: assms(5,6))
  have sub: "set cs \<subseteq> set (usedOf G (graph st) item)"
    unfolding assms(5) inLimitOf_def chunksInLimitOf_def not_reused_newChunk [OF assms(2)]
    by auto
  have len: "length cs < length (usedOf G (graph st) item)"
    using assms(3) unfolding overBudget_def assms(5) by simp
  have drop: "int (length cs) < minChunks ?cg \<longrightarrow> loopBody G st = Inr st1"
    unfolding l p by simp
  have add: "minChunks ?cg \<le> int (length cs) \<longrightarrow>
          loopBody G st = addModules G ?cg cs ck (modules item) st1"
    unfolding l p by simp
  have post: "\<forall>st'. loopBody G st = Inr st' \<longrightarrow>
          graph st' = graph st \<and> maxSizeQueueMap st' = maxSizeQueueMap st
          \<and> (minChunks ?cg \<le> int (length cs) \<longrightarrow>
               (\<forall>f. getName ?cg = Some f \<longrightarrow>
                  requeued ?cg f cs ck (modules item) (chunksInfoMap st1) (chunksInfoMap st')))"
  proof (intro allI impI)
    fix st' assume r: "loopBody G st = Inr st'"
    show "graph st' = graph st \<and> maxSizeQueueMap st' = maxSizeQueueMap st
          \<and> (minChunks ?cg \<le> int (length cs) \<longrightarrow>
               (\<forall>f. getName ?cg = Some f \<longrightarrow>
                  requeued ?cg f cs ck (modules item) (chunksInfoMap st1) (chunksInfoMap st')))"
    proof (cases "minChunks ?cg \<le> int (length cs)")
      case False
      with r have "st' = st1" unfolding l p by simp
      with False g show ?thesis by simp
    next
      case True
      with r have a: "addModules G ?cg cs ck (modules item) st1 = Inr st'"
        unfolding l p by simp
      have m: "\<not> int (length cs) < minChunks ?cg" using True by simp
      have "\<forall>f. getName ?cg = Some f \<longrightarrow>
                  requeued ?cg f cs ck (modules item) (chunksInfoMap st1) (chunksInfoMap st')"
        using addModules_requeued [OF _ m a] by blast
      with addModules_graph [OF a] g show ?thesis by simp
    qed
  qed
  show ?thesis using sub len drop add post by blast
qed

lemmas requeue_defs =
  requeuePass_def requeueGraph_def requeueItem_def exampleInfo_def
  exampleGroup_def createCacheGroup_def exampleSource_def emptyGraph_def emptyPass_def
  simpleOps_simps sgGroupsOf_def moduleA_def

lemma requeue_example:
  "findBestEntry (chunksInfoMap (requeuePass n)) = Some (''vendors name:shared'', requeueItem n)"
  "\<not> isReusedOf simpleOps (graph (requeuePass n)) (requeueItem n)"
  "usedOf simpleOps (graph (requeuePass n)) (requeueItem n) = [2, 3]"
  "inLimitOf simpleOps (graph (requeuePass n)) (requeueItem n) = [3]"
  "overBudget simpleOps (graph (requeuePass n)) (requeueItem n)"
  "getKey (indexMap (requeuePass n)) [3] = ''2''"
  "minChunks (cacheGroup (requeueItem n)) = n"
  by (simp_all add: findBestEntry_def bestStep_def path_defs requeue_defs getKey_def
      List.map_filter_def)

theorem budget_requeue_spec_witness:
  "findBestEntry (chunksInfoMap (requeuePass 2)) = Some (''vendors name:shared'', requeueItem 2)
   \<and> \<not> isReusedOf simpleOps (graph (requeuePass 2)) (requeueItem 2)
   \<and> overBudget simpleOps (graph (requeuePass 2)) (requeueItem 2)
   \<and> inLimitOf simpleOps (graph (requeuePass 2)) (requeueItem 2) = [3]
   \<and> loopBody simpleOps (requeuePass 2) = Inr ((requeuePass 2)\<lparr> chunksInfoMap := [] \<rparr>)
   \<and> loopBody simpleOps (requeuePass 1)
       = addModules simpleOps (cacheGroup (requeueItem 1)) [3] ''2'' [moduleA]
           ((requeuePass 1)\<lparr> chunksInfoMap := [] \<rparr>)"
proof -
  have d: "\<And>n. (requeuePass n)\<lparr> chunksInfoMap :=
              AList.delete ''vendors name:shared'' (chunksInfoMap (requeuePass n)) \<rparr>
            = (requeuePass n)\<lparr> chunksInfoMap := [] \<rparr>"
    by (simp add: requeuePass_def)
  have m: "modules (requeueItem 1) = [moduleA]"
    by (simp add: requeueItem_def exampleInfo_def)
  from budget_requeue_spec [OF requeue_example(1,2,5) d [symmetric] requeue_example(4) [symmetric]
      requeue_example(6) [symmetric], of 2]
    budget_requeue_spec [OF requeue_example(1,2,5) d [symmetric] requeue_example(4) [symmetric]
      requeue_example(6) [symmetric], of 1]
  show ?thesis using requeue_example [of 2] requeue_example(7) [of 1] m by simp
qed

theorem requeue_keeps_name_counterexample:
  "overBudget simpleOps (graph (requeuePass 1)) (requeueItem 1)
   \<and> usedOf simpleOps (graph (requeuePass 1)) (requeueItem 1) = [2, 3]
   \<and> inLimitOf simpleOps (graph (requeuePass 1)) (requeueItem 1) = [3]
   \<and> minChunks (cacheGroup (requeueItem 1)) = 1
   \<and> loopBody simpleOps (requeuePass 1)
       = Inr ((requeuePass 1)
               \<lparr> alreadyValidatedNames := [Some ''shared''],
                 chunksInfoMap :=
                   [(''vendors name:shared'',
                     (exampleInfo [moduleA] [3])
                       \<lparr> cacheGroup := exampleGroup\<lparr> minChunks := 1 \<rparr>,
                         name := Some ''shared'', chunksKeys := [''2''] \<rparr>)] \<rparr>)"
proof -
  have l: "loopBody simpleOps (requeuePass 1)
       = Inr ((requeuePass 1)
               \<lparr> alreadyValidatedNames := [Some ''shared''],
                 chunksInfoMap :=
                   [(''vendors name:shared'',
                     (exampleInfo [moduleA] [3])
                       \<lparr> cacheGroup := exampleGroup\<lparr> minChunks := 1 \<rparr>,
                         name := Some ''shared'', chunksKeys := [''2''] \<rparr>)] \<rparr>)"
    unfolding loopBody_def requeue_example(1) processEntry_cases
    using requeue_example [of 1]
    by (simp add: skipped_def)
       (simp add: requeue_defs addModuleToChunksInfoMap_def validateName_def infoKey_def
          newInfo_def addToInfo_def setAdd_def objectKeys_def mergeSizes_def objectAssign_def
          Let_def)
  show ?thesis using l requeue_example [of 1] by simp
qed

subsection \<open>Soft conflicts\<close>



lemma addModule_returns:
  "getName cg = Some f \<Longrightarrow> \<exists>st'. addModuleToChunksInfoMap G cg cs ck m st = Inr st'"
  by (simp add: addModuleToChunksInfoMap_def Let_def)





















subsection \<open>Normalized sizes and size tracking\<close>

lemma loopBody_outcomes:
  assumes "loopBody G st = Inr st'"
  shows "\<exists>k item. findBestEntry (chunksInfoMap st) = Some (k, item)
     \<and> (st' = st\<lparr> chunksInfoMap := AList.delete k (chunksInfoMap st) \<rparr>
        \<or> (\<exists>cs ck. addModules G (cacheGroup item) cs ck (modules item)
                      (st\<lparr> chunksInfoMap := AList.delete k (chunksInfoMap st) \<rparr>) = Inr st')
        \<or> (\<exists>g' q. st' = st\<lparr> graph := g', maxSizeQueueMap := q,
                 chunksInfoMap := retract item (AList.delete k (chunksInfoMap st)) \<rparr>))"
proof -
  from assms obtain k item where
    f: "findBestEntry (chunksInfoMap st) = Some (k, item)"
    by (cases "findBestEntry (chunksInfoMap st)") (auto simp: loopBody_def)
  let ?st1 = "st\<lparr> chunksInfoMap := AList.delete k (chunksInfoMap st) \<rparr>"
  have p: "processEntry G item ?st1 = Inr st'"
    using assms f by (simp add: loopBody_def)
  note pc = processEntry_cases [of G item ?st1]
  have "st' = ?st1
        \<or> (\<exists>cs ck. addModules G (cacheGroup item) cs ck (modules item) ?st1 = Inr st')
        \<or> (\<exists>g' q. st' = st\<lparr> graph := g', maxSizeQueueMap := q,
                 chunksInfoMap := retract item (AList.delete k (chunksInfoMap st)) \<rparr>)"
  proof (cases "skipped G (graph ?st1) item")
    case True
    with p pc have "st' = ?st1" by simp
    then show ?thesis by simp
  next
    case ns: False
    show ?thesis
    proof (cases "overBudget G (graph ?st1) item")
      case True
      show ?thesis
      proof (cases "int (length (inLimitOf G (graph ?st1) item)) \<ge> minChunks (cacheGroup item)")
        case False
        with p pc ns True have "st' = ?st1" by simp
        then show ?thesis by simp
      next
        case ge: True
        with p pc ns True have
          "addModules G (cacheGroup item) (inLimitOf G (graph ?st1) item)
             (getKey (indexMap ?st1) (inLimitOf G (graph ?st1) item)) (modules item) ?st1 = Inr st'"
          by simp
        then show ?thesis by blast
      qed
    next
      case False
      let ?mat = "materialize G item (chunkNameOf G (graph ?st1) item)
          (newChunkOf G (graph ?st1) item) (usedOf G (graph ?st1) item) (graph ?st1)"
      from p pc ns False have q: "(case ?mat of
           Inl e \<Rightarrow> Inl e
         | Inr (target, g') \<Rightarrow>
             Inr (?st1\<lparr> graph := g',
                       maxSizeQueueMap :=
                         queueMaxSize (cacheGroup item) target (maxSizeQueueMap ?st1),
                       chunksInfoMap := retract item (chunksInfoMap ?st1) \<rparr>)) = Inr st'"
        by simp
      then obtain target g' where m: "?mat = Inr (target, g')"
        by (cases ?mat) auto
      from q have "st' = ?st1\<lparr> graph := g',
                            maxSizeQueueMap :=
                              queueMaxSize (cacheGroup item) target (maxSizeQueueMap ?st1),
                            chunksInfoMap := retract item (chunksInfoMap ?st1) \<rparr>"
        unfolding m by simp
      then show ?thesis by auto
    qed
  qed
  with f show ?thesis by blast
qed

















subsection \<open>Recorded sizes are numbers\<close>

text \<open>
  The recorded sizes of every pending candidate are numbers, as the selection assumes,
  on every map that the pass builds from modules with plain types: the empty map is
  well tracked, and \<open>addModuleToChunksInfoMap\<close> and an iteration of the selection loop
  keep it so.
\<close>

lemma proto_not_plain: "t \<notin> set objectPrototypeKeys \<Longrightarrow> t \<noteq> ''__proto__''"
  by (auto simp: objectPrototypeKeys_def)

lemma numeric_update:
  "list_all (\<lambda>(k, v). isNumber v) szs \<Longrightarrow>
     list_all (\<lambda>(k, v). isNumber v) (AList.update t (Num n) szs)"
  by (induction szs) auto

lemma addSizes_numeric:
  assumes "list_all (\<lambda>(type, moduleSize). type \<notin> set objectPrototypeKeys) entries"
    and "list_all (\<lambda>(k, v). isNumber v) szs"
  shows "list_all (\<lambda>(k, v). isNumber v)
           (fold (\<lambda>(type, moduleSize) acc.
                    plainSet type (valueAdd (orZero (plainGet acc type)) (Num moduleSize)) acc)
                 entries szs)
       \<and> set (objectKeys (fold (\<lambda>(type, moduleSize) acc.
                    plainSet type (valueAdd (orZero (plainGet acc type)) (Num moduleSize)) acc)
                 entries szs))
          = set (objectKeys szs) \<union> set (objectKeys entries)"
  using assms
proof (induction entries arbitrary: szs)
  case Nil
  then show ?case by (simp add: objectKeys_def)
next
  case (Cons e entries)
  obtain t s where e: "e = (t, s)" by (cases e)
  from Cons.prems(1) have t: "t \<notin> set objectPrototypeKeys"
    and rest: "list_all (\<lambda>(type, moduleSize). type \<notin> set objectPrototypeKeys) entries"
    by (simp_all add: e)
  have g: "plainGet szs t = map_of szs t" using t by (rule plainGet_own)
  have "\<exists>n. valueAdd (orZero (plainGet szs t)) (Num s) = Num n"
  proof (cases "map_of szs t")
    case None
    then show ?thesis by (simp add: g)
  next
    case (Some v)
    with numeric_lookup [OF Cons.prems(2)] obtain n where "v = Num n" by blast
    with Some show ?thesis by (simp add: g)
  qed
  then obtain n where n: "valueAdd (orZero (plainGet szs t)) (Num s) = Num n" by blast
  let ?szs = "plainSet t (Num n) szs"
  have u: "?szs = AList.update t (Num n) szs"
    using proto_not_plain [OF t] by (simp add: plainSet_def)
  have num: "list_all (\<lambda>(k, v). isNumber v) ?szs"
    unfolding u using Cons.prems(2) by (rule numeric_update)
  have keys: "set (objectKeys ?szs) = insert t (set (objectKeys szs))"
    unfolding u by (simp add: objectKeys_def dom_update)
  let ?f = "\<lambda>(type, moduleSize) acc.
      plainSet type (valueAdd (orZero (plainGet acc type)) (Num moduleSize)) acc"
  from Cons.IH [OF rest num] have
    ih1: "list_all (\<lambda>(k, v). isNumber v) (fold ?f entries ?szs)" and
    ih2: "set (objectKeys (fold ?f entries ?szs))
        = set (objectKeys ?szs) \<union> set (objectKeys entries)"
    by simp_all
  have step: "fold ?f (e # entries) szs = fold ?f entries ?szs" by (simp add: e n)
  have "set (objectKeys ?szs) \<union> set (objectKeys entries)
      = set (objectKeys szs) \<union> set (objectKeys (e # entries))"
    unfolding keys by (auto simp: e objectKeys_def)
  with ih1 ih2 show ?case unfolding step by simp
qed

lemma wellTracked_newInfo: "wellTracked (newInfo cg nm)"
  by (simp add: wellTracked_def newInfo_def numericSizes_def)

lemma wellTracked_addToInfo:
  assumes "plainTypes m" and "wellTracked info"
  shows "wellTracked (addToInfo m cs ck info)"
proof -
  let ?info = "addToInfo m cs ck info"
  have ms: "set (modules ?info) = insert m (set (modules info))"
    by (rule addToInfo_modules)
  have v: "validateSize ?info = validateSize info"
    and s: "sizes ?info = (if validateSize info then addSizes m (sizes info) else sizes info)"
    unfolding addToInfo_def Let_def by auto
  from assms(2) have num: "list_all (\<lambda>(k, v). isNumber v) (sizes info)"
    and pl: "\<And>x. x \<in> set (modules info) \<Longrightarrow> plainTypes x"
    and rec: "validateSize info \<Longrightarrow> x \<in> set (modules info) \<Longrightarrow> (t, n) \<in> set (sourceSizes x)
          \<Longrightarrow> t \<in> set (objectKeys (sizes info))" for x t n
    unfolding wellTracked_def numericSizes_def list_all_iff by auto
  note a = addSizes_numeric [OF assms(1) [unfolded plainTypes_def] num, folded addSizes_def]
  have 1: "numericSizes ?info"
    unfolding numericSizes_def s using a num by simp
  have 2: "list_all plainTypes (modules ?info)"
    unfolding list_all_iff ms using pl assms(1) by auto
  have 3: "validateSize ?info \<longrightarrow>
          list_all (\<lambda>m. list_all (\<lambda>(type, moduleSize). type \<in> set (objectKeys (sizes ?info)))
                             (sourceSizes m))
                   (modules ?info)"
  proof
    assume "validateSize ?info"
    then have vi: "validateSize info" using v by simp
    have k: "set (objectKeys (sizes ?info))
        = set (objectKeys (sizes info)) \<union> set (objectKeys (sourceSizes m))"
      unfolding s using vi a by simp
    show "list_all (\<lambda>m. list_all (\<lambda>(type, moduleSize). type \<in> set (objectKeys (sizes ?info)))
                             (sourceSizes m))
                   (modules ?info)"
      unfolding list_all_iff ms k using rec [OF vi]
      by (auto simp: objectKeys_def intro: rev_image_eqI)
  qed
  show ?thesis unfolding wellTracked_def using 1 2 3 by blast
qed


lemma addModule_wellTracked:
  assumes "wellTrackedPending st" and "plainTypes m"
    and "addModuleToChunksInfoMap G cg cs ck m st = Inr st'"
  shows "wellTrackedPending st'"
proof -
  have old: "\<And>k info. (k, info) \<in> set (chunksInfoMap st) \<Longrightarrow> wellTracked info"
    using assms(1) unfolding wellTrackedPending_def list_all_iff by blast
  from addModule_cases [OF assms(3)] show ?thesis
  proof
    assume "st' = st" with assms(1) show ?thesis by simp
  next
    assume "\<exists>f info. getName cg = Some f \<and> \<not> int (length cs) < minChunks cg \<and>
        (info = newInfo cg (f m cs (key cg)) \<and>
            map_of (chunksInfoMap st) (infoKey cg (f m cs (key cg)) ck) = None
         \<or> map_of (chunksInfoMap st) (infoKey cg (f m cs (key cg)) ck) = Some info) \<and>
        st' = (validateName G cg (f m cs (key cg)) st)
          \<lparr> chunksInfoMap :=
              AList.update (infoKey cg (f m cs (key cg)) ck) (addToInfo m cs ck info)
                (chunksInfoMap st) \<rparr>"
    then obtain f info where
      info: "info = newInfo cg (f m cs (key cg))
         \<or> map_of (chunksInfoMap st) (infoKey cg (f m cs (key cg)) ck) = Some info" and
      eq: "st' = (validateName G cg (f m cs (key cg)) st)
          \<lparr> chunksInfoMap :=
              AList.update (infoKey cg (f m cs (key cg)) ck) (addToInfo m cs ck info)
                (chunksInfoMap st) \<rparr>"
      by blast
    have st': "chunksInfoMap st' =
              AList.update (infoKey cg (f m cs (key cg)) ck) (addToInfo m cs ck info)
                (chunksInfoMap st)"
      unfolding eq by simp
    have "wellTracked info"
      using info old map_of_SomeD wellTracked_newInfo by fast
    with assms(2) have new: "wellTracked (addToInfo m cs ck info)"
      by (rule wellTracked_addToInfo)
    have "\<And>k i. (k, i) \<in> set (chunksInfoMap st') \<Longrightarrow> wellTracked i"
      unfolding st' using set_update_cases old new by fast
    then show ?thesis
      unfolding wellTrackedPending_def list_all_iff by blast
  qed
qed

lemma addModules_wellTracked:
  "wellTrackedPending st \<Longrightarrow> list_all plainTypes ms
     \<Longrightarrow> addModules G cg cs ck ms st = Inr st' \<Longrightarrow> wellTrackedPending st'"
proof (induction ms arbitrary: st)
  case Nil
  then show ?case by simp
next
  case (Cons m ms)
  from Cons.prems(3) obtain st1 where
    a: "addModuleToChunksInfoMap G cg cs ck m st = Inr st1" and
    b: "addModules G cg cs ck ms st1 = Inr st'"
    by (auto split: sum.splits)
  from Cons.prems(2) have m: "plainTypes m" and ms: "list_all plainTypes ms" by simp_all
  from Cons.IH [OF addModule_wellTracked [OF Cons.prems(1) m a] ms b] show ?case .
qed

lemma subtractSizes_numeric:
  assumes "list_all (\<lambda>(type, moduleSize).
              type \<notin> set objectPrototypeKeys \<and> type \<in> set (objectKeys szs)) entries"
    and "list_all (\<lambda>(k, v). isNumber v) szs"
  shows "list_all (\<lambda>(k, v). isNumber v) (subtractSizes entries szs)
       \<and> objectKeys (subtractSizes entries szs) = objectKeys szs"
  using assms
proof (induction entries arbitrary: szs)
  case Nil
  then show ?case by simp
next
  case (Cons e entries)
  obtain t s where e: "e = (t, s)" by (cases e)
  from Cons.prems(1) have t: "t \<notin> set objectPrototypeKeys" "t \<in> set (objectKeys szs)"
    and rest: "list_all (\<lambda>(type, moduleSize).
              type \<notin> set objectPrototypeKeys \<and> type \<in> set (objectKeys szs)) entries"
    by (simp_all add: e)
  from t(2) obtain v where v: "map_of szs t = Some v"
    by (cases "map_of szs t") (auto simp: objectKeys_def map_of_eq_None_iff)
  with numeric_lookup [OF Cons.prems(2)] obtain n where n: "v = Num n" by blast
  have g: "plainGet szs t = Some (Num n)" using v n by (simp add: plainGet_recorded)
  let ?szs = "plainSet t (Num (n - s)) szs"
  have u: "?szs = AList.update t (Num (n - s)) szs"
    using proto_not_plain [OF t(1)] by (simp add: plainSet_def)
  have num: "list_all (\<lambda>(k, v). isNumber v) ?szs"
    unfolding u using Cons.prems(2) by (rule numeric_update)
  have keys: "objectKeys ?szs = objectKeys szs"
    unfolding u using t(2) by (simp add: objectKeys_def update_keys)
  have rest': "list_all (\<lambda>(type, moduleSize).
              type \<notin> set objectPrototypeKeys \<and> type \<in> set (objectKeys ?szs)) entries"
    unfolding keys by (rule rest)
  from Cons.IH [OF rest' num] show ?case by (simp add: e g keys)
qed

lemma removeTracked_wellTracked:
  assumes "validateSize info" and "wellTracked info"
  shows "wellTracked (fst (removeTracked ms info u))"
  using assms
proof (induction ms arbitrary: info u)
  case Nil
  then show ?case by simp
next
  case (Cons m ms)
  show ?case
  proof (cases "m \<in> set (modules info)")
    case False
    with Cons.IH [OF Cons.prems, of u] show ?thesis by simp
  next
    case True
    let ?info = "info\<lparr> modules := removeAll m (modules info),
                       sizes := subtractSizes (sourceSizes m) (sizes info) \<rparr>"
    from Cons.prems(2) have num: "list_all (\<lambda>(k, v). isNumber v) (sizes info)"
      and pl: "\<And>x. x \<in> set (modules info) \<Longrightarrow> plainTypes x"
      and rec: "\<And>x t n. x \<in> set (modules info) \<Longrightarrow> (t, n) \<in> set (sourceSizes x)
          \<Longrightarrow> t \<in> set (objectKeys (sizes info))"
      using Cons.prems(1) unfolding wellTracked_def numericSizes_def list_all_iff by auto
    have "list_all (\<lambda>(type, moduleSize).
              type \<notin> set objectPrototypeKeys \<and> type \<in> set (objectKeys (sizes info)))
            (sourceSizes m)"
      using pl [OF True] rec [OF True] unfolding plainTypes_def list_all_iff by auto
    from subtractSizes_numeric [OF this num] have
      n': "list_all (\<lambda>(k, v). isNumber v) (sizes ?info)"
      and k': "objectKeys (sizes ?info) = objectKeys (sizes info)"
      by simp_all
    have w: "wellTracked ?info"
      unfolding wellTracked_def numericSizes_def list_all_iff k'
      using n' pl rec unfolding list_all_iff by auto
    have v: "validateSize ?info" using Cons.prems(1) by simp
    from Cons.IH [OF v w, of True] True show ?thesis by simp
  qed
qed

lemma retractEntry_wellTracked:
  assumes "retractEntry item info = Some info'" and "wellTracked info"
  shows "wellTracked info'"
proof (cases "isOverlap (chunks info) (chunks item)")
  case False
  with assms show ?thesis by (simp add: retractEntry_def)
next
  case True
  show ?thesis
  proof (cases "validateSize info")
    case v: True
    obtain i u where r: "removeTracked (modules item) info False = (i, u)"
      by (cases "removeTracked (modules item) info False")
    from assms(1) retractEntry_tracked [OF True v r] have "i = info'"
      by (auto split: if_splits)
    with removeTracked_wellTracked [OF v assms(2), of "modules item" False] r
    show ?thesis by simp
  next
    case v: False
    from assms(1) True v have
      i: "info' = info\<lparr> modules := fold removeAll (modules item) (modules info) \<rparr>"
      by (auto simp: retractEntry_def Let_def split: if_splits)
    show ?thesis
      using assms(2) v unfolding i wellTracked_def numericSizes_def list_all_iff
      by (auto simp: set_fold_removeAll)
  qed
qed

lemma loopBody_wellTracked:
  assumes "wellTrackedPending st" and "loopBody G st = Inr st'"
  shows "wellTrackedPending st'"
proof -
  have old: "\<And>k info. (k, info) \<in> set (chunksInfoMap st) \<Longrightarrow> wellTracked info"
    using assms(1) unfolding wellTrackedPending_def list_all_iff by blast
  from loopBody_outcomes [OF assms(2)] obtain k item where
    f: "findBestEntry (chunksInfoMap st) = Some (k, item)" and
    c: "st' = st\<lparr> chunksInfoMap := AList.delete k (chunksInfoMap st) \<rparr>
        \<or> (\<exists>cs ck. addModules G (cacheGroup item) cs ck (modules item)
                      (st\<lparr> chunksInfoMap := AList.delete k (chunksInfoMap st) \<rparr>) = Inr st')
        \<or> (\<exists>g' q. st' = st\<lparr> graph := g', maxSizeQueueMap := q,
                 chunksInfoMap := retract item (AList.delete k (chunksInfoMap st)) \<rparr>)"
    by blast
  have num: "\<forall>(k, e) \<in> set (chunksInfoMap st). numericSizes e"
    using old unfolding wellTracked_def by blast
  have ne: "chunksInfoMap st \<noteq> []" using f by (auto simp: findBestEntry_def)
  from findBestEntry_max [OF ne num] f have "(k, item) \<in> set (chunksInfoMap st)" by auto
  then have item: "list_all plainTypes (modules item)"
    using old unfolding wellTracked_def by blast
  let ?st1 = "st\<lparr> chunksInfoMap := AList.delete k (chunksInfoMap st) \<rparr>"
  have d: "\<And>k' info. (k', info) \<in> set (AList.delete k (chunksInfoMap st)) \<Longrightarrow> wellTracked info"
    using old by (auto simp: set_delete)
  have s1: "wellTrackedPending ?st1"
    unfolding wellTrackedPending_def list_all_iff using d by auto
  from c show ?thesis
  proof (elim disjE exE)
    assume "st' = ?st1"
    with s1 show ?thesis by simp
  next
    fix cs ck
    assume "addModules G (cacheGroup item) cs ck (modules item) ?st1 = Inr st'"
    from addModules_wellTracked [OF s1 item this] show ?thesis .
  next
    fix g' q
    assume e: "st' = st\<lparr> graph := g', maxSizeQueueMap := q,
                 chunksInfoMap := retract item (AList.delete k (chunksInfoMap st)) \<rparr>"
    have "\<And>k' info'. (k', info') \<in> set (retract item (AList.delete k (chunksInfoMap st)))
        \<Longrightarrow> wellTracked info'"
    proof -
      fix k' info'
      assume "(k', info') \<in> set (retract item (AList.delete k (chunksInfoMap st)))"
      with retract_entries [of item "AList.delete k (chunksInfoMap st)"] obtain info where
        "(k', info) \<in> set (AList.delete k (chunksInfoMap st))"
        "retractEntry item info = Some info'"
        by blast
      with d retractEntry_wellTracked show "wellTracked info'" by blast
    qed
    then show ?thesis
      unfolding e wellTrackedPending_def list_all_iff by auto
  qed
qed

lemma wellTracked_numeric:
  "wellTrackedPending st \<Longrightarrow> \<forall>(k, info) \<in> set (chunksInfoMap st). numericSizes info"
  unfolding wellTrackedPending_def wellTracked_def list_all_iff by blast

lemma wellTracked_empty: "chunksInfoMap st = [] \<Longrightarrow> wellTrackedPending st"
  by (simp add: wellTrackedPending_def)

end
